theory Spec2Isabelle
  imports Main "HOL-Library.Word"
begin

section \<open>Data model of the packet-loss handling code (rpc_pkt_loss.cc)\<close>

text \<open>
  Modelled from the spec: the declarations of \<open>Session\<close>, \<open>SSlot\<close>,
  \<open>MsgBuffer\<close> and \<open>Rpc\<close>, which rpc_pkt_loss.cc takes from rpc.h. The records
  below have the members that the code of the file reads and writes, under the names it
  uses; section 3 of the spec says what they stand for.

  The source works on \<open>size_t\<close> counters; they are 64-bit words here, so that
  \<open>num_tx - num_rx\<close>, \<open>credits += delta\<close> and \<open>ev_loop_tsc - progress_tsc\<close> wrap
  around exactly as they do in the C++.
\<close>

type_synonym size_t = "64 word"

datatype SessionState =
  kConnectInProgress | kConnected | kDisconnectInProgress | kResetInProgress

datatype Role = kServer | kClient

text \<open>What the code reads of a \<open>MsgBuffer\<close>: \<open>get_req_num()\<close> and \<open>num_pkts\<close>.\<close>

record MsgBuffer =
  req_num :: size_t
  num_pkts :: size_t

text \<open>\<open>sslot.client_info\<close>: the client-side counters of one session slot.\<close>

record SSlot_client_info =
  num_tx :: size_t
  num_rx :: size_t
  progress_tsc :: size_t

text \<open>An \<open>SSlot\<close>; \<open>tx_msgbuf\<close> is a nullable pointer, \<open>None\<close> is \<open>nullptr\<close>.\<close>

record SSlot =
  tx_msgbuf :: "MsgBuffer option"
  cur_req_num :: size_t
  client_info :: SSlot_client_info

text \<open>
  \<open>session->client_info\<close>: the credit counter, the time stamp of the last
  session-management request and \<open>cc.num_retransmissions\<close>.
\<close>

record Session_client_info =
  credits :: size_t
  sm_req_ts :: size_t
  cc_num_retransmissions :: size_t

record Session =
  role :: Role
  state :: SessionState
  sslot_arr :: "SSlot list"
  session_client_info :: Session_client_info
  local_session_num :: "16 word"

text \<open>
  An \<open>SSlot*\<close> is the index of its session in \<open>session_vec\<close> and its index in that
  session's \<open>sslot_arr\<close>; \<open>sslot->session\<close> is the first component.
\<close>

type_synonym sslot_ptr = "nat \<times> nat"

text \<open>
  The members of the \<open>Rpc\<close> object that the two functions read or write. Everything
  else of the object (the timing wheel, the TX batch array, the transport's send queue)
  is only reached through functions defined elsewhere and is kept as one opaque field.
\<close>

record 'x Rpc =
  session_vec :: "Session option list"
  ev_loop_tsc :: size_t
  rpc_rto_cycles :: size_t
  tx_batch_i :: size_t
  stallq :: "sslot_ptr list"
  faults_hard_wheel_bypass :: bool
  other :: 'x

text \<open>
  The functions and constants that rpc_pkt_loss.cc uses and that are defined in other
  files of the repository. They are parameters of the model: a member function of
  \<open>Rpc\<close> is a transformer of the \<open>Rpc\<close> state, \<open>rdtsc\<close> gives the n-th reading of
  the time-stamp counter, and \<open>to_msec\<close> is the conversion
  \<open>to_msec(cycles, nexus->freq_ghz)\<close> followed by the conversion of its result to
  \<open>size_t\<close>.
\<close>

record 'x externs =
  kSessionCredits :: size_t
  kSMTimeoutMs :: size_t
  kCcPacing :: bool
  kTesting :: bool
  kMTU :: size_t
  in_dispatch :: bool
  rdtsc :: "nat \<Rightarrow> size_t"
  to_msec :: "size_t \<Rightarrow> size_t"
  req_pkts_pending :: "sslot_ptr \<Rightarrow> 'x Rpc \<Rightarrow> bool"
  do_tx_burst_st :: "'x Rpc \<Rightarrow> 'x Rpc"
  tx_flush :: "'x Rpc \<Rightarrow> 'x Rpc"
  enqueue_wheel_st :: "sslot_ptr \<Rightarrow> size_t \<Rightarrow> 'x Rpc \<Rightarrow> 'x Rpc"
  kick_req_st :: "sslot_ptr \<Rightarrow> 'x Rpc \<Rightarrow> 'x Rpc"
  kick_rfr_st :: "sslot_ptr \<Rightarrow> 'x Rpc \<Rightarrow> 'x Rpc"
  send_sm_req_st :: "nat \<Rightarrow> 'x Rpc \<Rightarrow> 'x Rpc"

text \<open>
  Every call of one of these functions and every \<open>LOG_REORDER\<close> line is recorded, in
  order. The flag of \<open>Log_retransmitting\<close> is \<open>True\<close> for the text "requests" and
  \<open>False\<close> for "RFRs".
\<close>

datatype call =
  Log_false_positive sslot_ptr
| Log_retransmitting sslot_ptr bool
| Do_tx_burst_st
| Tx_flush
| Enqueue_wheel_st sslot_ptr size_t
| Kick_req_st sslot_ptr
| Kick_rfr_st sslot_ptr
| Send_sm_req_st nat

record 'x machine =
  rpc :: "'x Rpc"
  calls :: "call list"
  tsc_reads :: nat

text \<open>
  The assertions are checked, as in a build without \<open>NDEBUG\<close>: a failed
  \<open>assert\<close> aborts the process. Following a pointer to a session or slot that is not
  there is undefined behaviour in C++ and a failure here.
\<close>

datatype error = Assertion_failed | Invalid_pointer

section \<open>Access to sessions and slots\<close>

definition get_session :: "'x Rpc \<Rightarrow> nat \<Rightarrow> Session option" where
  "get_session r i = (if i < length (session_vec r) then session_vec r ! i else None)"

definition get_sslot :: "'x Rpc \<Rightarrow> sslot_ptr \<Rightarrow> (Session \<times> SSlot) option" where
  "get_sslot r p =
     (case get_session r (fst p) of
        None \<Rightarrow> None
      | Some s \<Rightarrow>
          if snd p < length (sslot_arr s) then Some (s, sslot_arr s ! snd p) else None)"

definition set_session :: "nat \<Rightarrow> Session \<Rightarrow> 'x Rpc \<Rightarrow> 'x Rpc" where
  "set_session i s r = r\<lparr>session_vec := (session_vec r)[i := Some s]\<rparr>"

text \<open>Modelled from the spec: \<open>Session::is_server()\<close>, which is not in the sources
  at hand; the spec says that the session role is Client or Server.\<close>

definition is_server :: "Session \<Rightarrow> bool" where
  "is_server s = (role s = kServer)"

definition log_reorder :: "call \<Rightarrow> 'x machine \<Rightarrow> 'x machine" where
  "log_reorder c m = m\<lparr>calls := calls m @ [c]\<rparr>"

definition invoke :: "call \<Rightarrow> ('x Rpc \<Rightarrow> 'x Rpc) \<Rightarrow> 'x machine \<Rightarrow> 'x machine" where
  "invoke c f m = m\<lparr>rpc := f (rpc m), calls := calls m @ [c]\<rparr>"

section \<open>pkt_loss_retransmit_st\<close>

text \<open>
  The roll-back: \<open>cc.num_retransmissions++\<close>, \<open>credits += delta\<close>,
  \<open>ci.num_tx = ci.num_rx\<close>, \<open>ci.progress_tsc = ev_loop_tsc\<close>, on the session that owns
  slot \<open>j\<close>.
\<close>

definition rollback :: "nat \<Rightarrow> size_t \<Rightarrow> size_t \<Rightarrow> Session \<Rightarrow> Session" where
  "rollback j delta now s =
     (let sci = session_client_info s;
          sl = sslot_arr s ! j;
          ci = client_info sl
      in s\<lparr>session_client_info :=
              sci\<lparr>cc_num_retransmissions := cc_num_retransmissions sci + 1,
                  credits := credits sci + delta\<rparr>,
            sslot_arr :=
              (sslot_arr s)[j := sl\<lparr>client_info :=
                                    ci\<lparr>num_tx := num_rx ci, progress_tsc := now\<rparr>\<rparr>]\<rparr>)"

definition rollback_st ::
  "sslot_ptr \<Rightarrow> Session \<Rightarrow> size_t \<Rightarrow> 'x machine \<Rightarrow> 'x machine" where
  "rollback_st sslot session delta m =
     m\<lparr>rpc := set_session (fst sslot)
                 (rollback (snd sslot) delta (ev_loop_tsc (rpc m)) session) (rpc m)\<rparr>"

text \<open>\<open>if (tx_batch_i > 0) do_tx_burst_st(); transport->tx_flush();\<close>\<close>

definition drain_tx :: "'x externs \<Rightarrow> 'x machine \<Rightarrow> 'x machine" where
  "drain_tx env m =
     (let m1 = (if 0 < tx_batch_i (rpc m)
                then invoke Do_tx_burst_st (do_tx_burst_st env) m else m)
      in invoke Tx_flush (tx_flush env) m1)"

text \<open>\<open>credits -= delta\<close>, through the reference taken at the start of the function.\<close>

definition sub_credits :: "nat \<Rightarrow> size_t \<Rightarrow> 'x Rpc \<Rightarrow> error + 'x Rpc" where
  "sub_credits i delta r =
     (case get_session r i of
        None \<Rightarrow> Inl Invalid_pointer
      | Some s \<Rightarrow>
          Inr (set_session i
                 (s\<lparr>session_client_info :=
                      (session_client_info s)\<lparr>credits :=
                         credits (session_client_info s) - delta\<rparr>\<rparr>) r))"

text \<open>
  The re-injection: \<open>delta\<close> calls of \<open>enqueue_wheel_st(sslot, TTr::kMTU)\<close> and
  \<open>credits -= delta\<close>, or one call of \<open>kick_req_st\<close> or \<open>kick_rfr_st\<close>.
\<close>

definition reinject ::
  "'x externs \<Rightarrow> sslot_ptr \<Rightarrow> size_t \<Rightarrow> 'x machine \<Rightarrow> error + 'x machine" where
  "reinject env sslot delta m =
     (if kCcPacing env \<or> (kTesting env \<and> \<not> faults_hard_wheel_bypass (rpc m)) then
        (let m1 = ((invoke (Enqueue_wheel_st sslot (kMTU env))
                      (enqueue_wheel_st env sslot (kMTU env))) ^^ unat delta) m
         in case sub_credits (fst sslot) delta (rpc m1) of
              Inl e \<Rightarrow> Inl e
            | Inr r \<Rightarrow> Inr (m1\<lparr>rpc := r\<rparr>))
      else if req_pkts_pending env sslot (rpc m)
      then Inr (invoke (Kick_req_st sslot) (kick_req_st env sslot) m)
      else Inr (invoke (Kick_rfr_st sslot) (kick_rfr_st env sslot) m))"

text \<open>
  The function itself, statement by statement: the two assertions, \<open>delta\<close>, the
  assertion on the credits, the false positive, the log line and the roll-back, the
  assertion on the stall queue, the draining and the re-injection. The text of
  \<open>issue_msg\<close> is not kept; a log line is recorded with the slot it is about.
\<close>

definition pkt_loss_retransmit_st ::
  "'x externs \<Rightarrow> sslot_ptr \<Rightarrow> 'x machine \<Rightarrow> error + 'x machine" where
  "pkt_loss_retransmit_st env sslot m =
     (if \<not> in_dispatch env then Inl Assertion_failed
      else case get_sslot (rpc m) sslot of
        None \<Rightarrow> Inl Invalid_pointer
      | Some (session, sl) \<Rightarrow>
          (case tx_msgbuf sl of
             None \<Rightarrow> Inl Assertion_failed
           | Some req_msgbuf \<Rightarrow>
               (let ci = client_info sl;
                    delta = num_tx ci - num_rx ci
                in if \<not> credits (session_client_info session) + delta
                          \<le> kSessionCredits env
                   then Inl Assertion_failed
                   else if delta = 0
                   then Inr (log_reorder (Log_false_positive sslot) m)
                   else
                     (let m1 = log_reorder
                                 (Log_retransmitting sslot
                                    (num_rx ci < num_pkts req_msgbuf)) m;
                          m2 = rollback_st sslot session delta m1
                      in if sslot \<in> set (stallq (rpc m2)) then Inl Assertion_failed
                         else reinject env sslot delta (drain_tx env m2)))))"

section \<open>pkt_loss_scan_st\<close>

text \<open>The body of the loop over \<open>session->sslot_arr\<close>.\<close>

definition scan_sslot ::
  "'x externs \<Rightarrow> sslot_ptr \<Rightarrow> 'x machine \<Rightarrow> error + 'x machine" where
  "scan_sslot env p m =
     (case get_sslot (rpc m) p of
        None \<Rightarrow> Inl Invalid_pointer
      | Some (session, sslot) \<Rightarrow>
          (case tx_msgbuf sslot of
             None \<Rightarrow> Inr m
           | Some mb \<Rightarrow>
               if num_tx (client_info sslot) = 0 then Inr m
               else if req_num mb \<noteq> cur_req_num sslot then Inl Assertion_failed
               else
                 (let cycles_elapsed =
                        ev_loop_tsc (rpc m) - progress_tsc (client_info sslot)
                  in if rpc_rto_cycles (rpc m) < cycles_elapsed
                     then pkt_loss_retransmit_st env p m
                     else Inr m)))"

fun scan_sslots ::
  "'x externs \<Rightarrow> nat \<Rightarrow> nat list \<Rightarrow> 'x machine \<Rightarrow> error + 'x machine" where
  "scan_sslots env i [] m = Inr m"
| "scan_sslots env i (j # js) m =
     (case scan_sslot env (i, j) m of
        Inl e \<Rightarrow> Inl e
      | Inr m' \<Rightarrow> scan_sslots env i js m')"

text \<open>
  Session-management packet loss: \<open>rdtsc()\<close> is read once, and the request is sent
  again when \<open>ms_elapsed > kSMTimeoutMs\<close>.
\<close>

definition sm_pkt_loss :: "'x externs \<Rightarrow> nat \<Rightarrow> Session \<Rightarrow> 'x machine \<Rightarrow> 'x machine" where
  "sm_pkt_loss env i session m =
     (let now = rdtsc env (tsc_reads m);
          m1 = m\<lparr>tsc_reads := Suc (tsc_reads m)\<rparr>;
          ms_elapsed = to_msec env (now - sm_req_ts (session_client_info session))
      in if kSMTimeoutMs env < ms_elapsed
         then invoke (Send_sm_req_st i) (send_sm_req_st env i) m1
         else m1)"

text \<open>The body of the loop over \<open>session_vec\<close>.\<close>

definition scan_session :: "'x externs \<Rightarrow> nat \<Rightarrow> 'x machine \<Rightarrow> error + 'x machine" where
  "scan_session env i m =
     (if length (session_vec (rpc m)) \<le> i then Inl Invalid_pointer
      else case session_vec (rpc m) ! i of
        None \<Rightarrow> Inr m
      | Some session \<Rightarrow>
          if is_server session then Inr m
          else
            (case state session of
               kConnected \<Rightarrow> scan_sslots env i [0..<length (sslot_arr session)] m
             | kConnectInProgress \<Rightarrow> Inr (sm_pkt_loss env i session m)
             | kDisconnectInProgress \<Rightarrow> Inr (sm_pkt_loss env i session m)
             | kResetInProgress \<Rightarrow> Inr m))"

fun scan_sessions ::
  "'x externs \<Rightarrow> nat list \<Rightarrow> 'x machine \<Rightarrow> error + 'x machine" where
  "scan_sessions env [] m = Inr m"
| "scan_sessions env (i # is) m =
     (case scan_session env i m of
        Inl e \<Rightarrow> Inl e
      | Inr m' \<Rightarrow> scan_sessions env is m')"

definition pkt_loss_scan_st :: "'x externs \<Rightarrow> 'x machine \<Rightarrow> error + 'x machine" where
  "pkt_loss_scan_st env m =
     (if \<not> in_dispatch env then Inl Assertion_failed
      else scan_sessions env [0..<length (session_vec (rpc m))] m)"

section \<open>UDPClient::send\<close>

text \<open>
  The asio resolver and socket are a library outside the repository. \<open>resolve\<close> is
  the overload with an \<open>error_code\<close>: it returns the list of results and the error's
  message and does not throw. \<open>send_to\<close> returns the number of bytes sent or throws
  \<open>asio::system_error\<close>, which carries its \<open>what()\<close> text.
\<close>

datatype asio_exception = System_error string

record ('ep, 'msg) asio =
  resolve :: "string \<Rightarrow> string \<Rightarrow> 'ep list \<times> string"
  send_to :: "'msg \<Rightarrow> size_t \<Rightarrow> 'ep \<Rightarrow> asio_exception + size_t"

datatype erpc_error_line =
  Failed_to_resolve string string
| Send_to_failed string string

text \<open>\<open>std::to_string\<close> on an unsigned value: its decimal digits.\<close>

fun to_string :: "nat \<Rightarrow> string" where
  "to_string n =
     (if n < 10 then [''0123456789'' ! n]
      else to_string (n div 10) @ [''0123456789'' ! (n mod 10)])"

declare to_string.simps [simp del]

text \<open>
  \<open>send\<close> gives the \<open>ERPC_ERROR\<close> lines it prints and either an exception that
  leaves the function or the returned \<open>ssize_t\<close>. \<open>sizeof_T\<close> is \<open>sizeof(T)\<close>;
  \<open>static_cast<ssize_t>\<close> reads the 64-bit value as two's complement.
\<close>

definition send ::
  "('ep, 'msg) asio \<Rightarrow> size_t \<Rightarrow> string \<Rightarrow> 16 word \<Rightarrow> 'msg
     \<Rightarrow> erpc_error_line list \<times> (asio_exception + int)" where
  "send io sizeof_T rem_hostname rem_port msg =
     (let (results, error) = resolve io rem_hostname (to_string (unat rem_port))
      in if length results = 0
         then ([Failed_to_resolve rem_hostname error], Inr (- 1))
         else
           (let endpoint = hd results
            in case send_to io msg sizeof_T endpoint of
                 Inr ret \<Rightarrow> ([], Inr (sint ret))
               | Inl (System_error what) \<Rightarrow>
                   ([Send_to_failed rem_hostname what], Inr (- 1))))"

section \<open>Properties stated about the code\<close>

text \<open>
  The counters of one session that credit accounting is about: the credit counter and,
  for every slot, \<open>num_tx\<close> and \<open>num_rx\<close>.
\<close>

definition counters :: "'x Rpc \<Rightarrow> nat \<Rightarrow> (size_t \<times> (size_t \<times> size_t) list) option" where
  "counters r i =
     (case get_session r i of
        None \<Rightarrow> None
      | Some s \<Rightarrow>
          Some (credits (session_client_info s),
                map (\<lambda>sl. (num_tx (client_info sl), num_rx (client_info sl)))
                  (sslot_arr s)))"

text \<open>A function of the \<open>Rpc\<close> object that leaves these counters of session \<open>i\<close> alone.\<close>

definition keeps_counters :: "('x Rpc \<Rightarrow> 'x Rpc) \<Rightarrow> nat \<Rightarrow> bool" where
  "keeps_counters f i = (\<forall>r. counters (f r) i = counters r i)"

text \<open>
  The credit invariant for one slot, over the integers:
  \<open>credits + (num_tx - num_rx) \<le> kSessionCredits\<close>.
\<close>

definition credit_invariant :: "'x externs \<Rightarrow> sslot_ptr \<Rightarrow> 'x Rpc \<Rightarrow> bool" where
  "credit_invariant env p r =
     (case get_sslot r p of
        None \<Rightarrow> False
      | Some (s, sl) \<Rightarrow>
          uint (credits (session_client_info s))
            + (uint (num_tx (client_info sl)) - uint (num_rx (client_info sl)))
          \<le> uint (kSessionCredits env))"

text \<open>A function of the \<open>Rpc\<close> object under which the credit invariant of a slot is kept.\<close>

definition keeps_invariant :: "'x externs \<Rightarrow> sslot_ptr \<Rightarrow> ('x Rpc \<Rightarrow> 'x Rpc) \<Rightarrow> bool" where
  "keeps_invariant env p f = (\<forall>r. credit_invariant env p r \<longrightarrow> credit_invariant env p (f r))"

text \<open>
  The same invariant over all slots of a session: every slot has \<open>num_rx \<le> num_tx\<close>,
  and the credits plus the packets in flight on all slots are at most
  \<open>kSessionCredits\<close>.
\<close>

definition in_flight :: "(size_t \<times> size_t) list \<Rightarrow> int" where
  "in_flight l = (\<Sum>q\<leftarrow>l. uint (fst q) - uint (snd q))"

definition session_credit_invariant :: "'x externs \<Rightarrow> nat \<Rightarrow> 'x Rpc \<Rightarrow> bool" where
  "session_credit_invariant env i r =
     (case counters r i of
        None \<Rightarrow> False
      | Some (c, l) \<Rightarrow>
          (\<forall>q \<in> set l. snd q \<le> fst q)
          \<and> uint c + in_flight l \<le> uint (kSessionCredits env))"

text \<open>The condition under which the rolled-back packets go to the timing wheel.\<close>

definition wheel_path :: "'x externs \<Rightarrow> 'x Rpc \<Rightarrow> bool" where
  "wheel_path env r = (kCcPacing env \<or> (kTesting env \<and> \<not> faults_hard_wheel_bypass r))"

text \<open>An entry of \<open>session_vec\<close> that the scan passes over.\<close>

definition no_scan_work :: "Session option \<Rightarrow> bool" where
  "no_scan_work so =
     (case so of None \<Rightarrow> True | Some s \<Rightarrow> is_server s \<or> state s = kResetInProgress)"

text \<open>
  The session that a recorded call is about. The draining of the TX batch is about no
  session in particular.
\<close>

fun call_session :: "call \<Rightarrow> nat option" where
  "call_session (Log_false_positive p) = Some (fst p)"
| "call_session (Log_retransmitting p b) = Some (fst p)"
| "call_session Do_tx_burst_st = None"
| "call_session Tx_flush = None"
| "call_session (Enqueue_wheel_st p sz) = Some (fst p)"
| "call_session (Kick_req_st p) = Some (fst p)"
| "call_session (Kick_rfr_st p) = Some (fst p)"
| "call_session (Send_sm_req_st i) = Some i"

text \<open>
  The slot whose suspected loss a log line reports: \<open>pkt_loss_retransmit_st\<close> writes
  one such line whenever it is entered and returns.
\<close>

fun loss_log_of :: "call \<Rightarrow> sslot_ptr option" where
  "loss_log_of (Log_false_positive p) = Some p"
| "loss_log_of (Log_retransmitting p b) = Some p"
| "loss_log_of Do_tx_burst_st = None"
| "loss_log_of Tx_flush = None"
| "loss_log_of (Enqueue_wheel_st p sz) = None"
| "loss_log_of (Kick_req_st p) = None"
| "loss_log_of (Kick_rfr_st p) = None"
| "loss_log_of (Send_sm_req_st i) = None"

text \<open>The calls recorded on the way from machine \<open>m\<close> to machine \<open>m'\<close>.\<close>

definition scan_calls :: "'x machine \<Rightarrow> 'x machine \<Rightarrow> call list" where
  "scan_calls m m' = drop (length (calls m)) (calls m')"

text \<open>
  What the scan reads of entry \<open>i\<close> of \<open>session_vec\<close> before it looks at the slots:
  whether the entry is null, and the session's role, state and \<open>sm_req_ts\<close>.
\<close>

definition entry_view ::
  "'x Rpc \<Rightarrow> nat \<Rightarrow> (Role \<times> SessionState \<times> size_t) option option" where
  "entry_view r i =
     (if i < length (session_vec r)
      then Some (map_option
                   (\<lambda>s. (role s, state s, sm_req_ts (session_client_info s)))
                   (session_vec r ! i))
      else None)"

text \<open>
  What the scan reads to decide about one slot: the two clock values, the role and state
  of the session, and the slot's \<open>tx_msgbuf\<close>, \<open>cur_req_num\<close>, \<open>num_tx\<close> and
  \<open>progress_tsc\<close>.
\<close>

definition slot_view ::
  "'x Rpc \<Rightarrow> sslot_ptr
     \<Rightarrow> size_t \<times> size_t
          \<times> (Role \<times> SessionState \<times> MsgBuffer option \<times> size_t \<times> size_t \<times> size_t) option" where
  "slot_view r p =
     (ev_loop_tsc r, rpc_rto_cycles r,
      map_option
        (\<lambda>(s, sl). (role s, state s, tx_msgbuf sl, cur_req_num sl,
                    num_tx (client_info sl), progress_tsc (client_info sl)))
        (get_sslot r p))"

text \<open>
  The functions defined outside the file leave alone what the scan reads of entry \<open>i\<close>,
  when they are called on behalf of another session.
\<close>

definition others_keep_entry :: "'x externs \<Rightarrow> nat \<Rightarrow> bool" where
  "others_keep_entry env i =
     (\<forall>r. entry_view (do_tx_burst_st env r) i = entry_view r i
        \<and> entry_view (tx_flush env r) i = entry_view r i
        \<and> (\<forall>q sz. fst q \<noteq> i \<longrightarrow> entry_view (enqueue_wheel_st env q sz r) i = entry_view r i)
        \<and> (\<forall>q. fst q \<noteq> i \<longrightarrow> entry_view (kick_req_st env q r) i = entry_view r i)
        \<and> (\<forall>q. fst q \<noteq> i \<longrightarrow> entry_view (kick_rfr_st env q r) i = entry_view r i)
        \<and> (\<forall>k. k \<noteq> i \<longrightarrow> entry_view (send_sm_req_st env k r) i = entry_view r i))"


text \<open>
  A property of the \<open>Rpc\<close> object that everything done for slot \<open>q\<close> keeps (the calls
  and the function's own writes), and one that a session-management request for session
  \<open>k\<close> keeps.
\<close>

definition visit_keeps :: "'x externs \<Rightarrow> ('x Rpc \<Rightarrow> bool) \<Rightarrow> sslot_ptr \<Rightarrow> bool" where
  "visit_keeps env P q =
     (\<forall>r. P r \<longrightarrow>
        P (do_tx_burst_st env r) \<and> P (tx_flush env r)
        \<and> (\<forall>sz. P (enqueue_wheel_st env q sz r))
        \<and> P (kick_req_st env q r) \<and> P (kick_rfr_st env q r)
        \<and> (\<forall>s sl d. get_sslot r q = Some (s, sl)
              \<longrightarrow> P (set_session (fst q) (rollback (snd q) d (ev_loop_tsc r) s) r))
        \<and> (\<forall>d r'. sub_credits (fst q) d r = Inr r' \<longrightarrow> P r'))"

definition sm_keeps :: "'x externs \<Rightarrow> ('x Rpc \<Rightarrow> bool) \<Rightarrow> nat \<Rightarrow> bool" where
  "sm_keeps env P k = (\<forall>r. P r \<longrightarrow> P (send_sm_req_st env k r))"


section \<open>A concrete endpoint\<close>

text \<open>
  One client session with two slots: slot 0 has a request of four packets outstanding
  with \<open>num_tx = tx\<close> and \<open>num_rx = rx\<close>, slot 1 is free. The opaque part of the
  \<open>Rpc\<close> object counts the packets handed to the wheel or to the control socket, and
  the packets that wait in the transport's send queue.
\<close>

record ex_other =
  handed :: nat
  send_queue :: nat

definition ex_slot :: "size_t \<Rightarrow> size_t \<Rightarrow> SSlot" where
  "ex_slot tx rx =
     \<lparr>tx_msgbuf = Some \<lparr>req_num = 8, num_pkts = 4\<rparr>, cur_req_num = 8,
      client_info = \<lparr>num_tx = tx, num_rx = rx, progress_tsc = 1000\<rparr>\<rparr>"

definition ex_free_slot :: SSlot where
  "ex_free_slot =
     \<lparr>tx_msgbuf = None, cur_req_num = 1,
      client_info = \<lparr>num_tx = 0, num_rx = 0, progress_tsc = 0\<rparr>\<rparr>"

definition ex_session :: "Role \<Rightarrow> SessionState \<Rightarrow> size_t \<Rightarrow> size_t \<Rightarrow> Session" where
  "ex_session ro st tx rx =
     \<lparr>role = ro, state = st, sslot_arr = [ex_slot tx rx, ex_free_slot],
      session_client_info = \<lparr>credits = 6, sm_req_ts = 2000, cc_num_retransmissions = 0\<rparr>,
      local_session_num = 0\<rparr>"

definition ex_rpc :: "Role \<Rightarrow> SessionState \<Rightarrow> size_t \<Rightarrow> size_t \<Rightarrow> ex_other Rpc" where
  "ex_rpc ro st tx rx =
     \<lparr>session_vec = [Some (ex_session ro st tx rx), None],
      ev_loop_tsc = 10000000, rpc_rto_cycles = 5000000, tx_batch_i = 1, stallq = [],
      faults_hard_wheel_bypass = False,
      other = \<lparr>handed = 0, send_queue = 2\<rparr>\<rparr>"

definition ex_machine :: "Role \<Rightarrow> SessionState \<Rightarrow> size_t \<Rightarrow> size_t \<Rightarrow> ex_other machine" where
  "ex_machine ro st tx rx = \<lparr>rpc = ex_rpc ro st tx rx, calls = [], tsc_reads = 0\<rparr>"

text \<open>
  A kick that sends one packet when a credit is left: the credit is consumed and
  \<open>num_tx\<close> is bumped.
\<close>

definition ex_kick :: "sslot_ptr \<Rightarrow> ex_other Rpc \<Rightarrow> ex_other Rpc" where
  "ex_kick p r =
     (case get_sslot r p of
        None \<Rightarrow> r
      | Some (s, sl) \<Rightarrow>
          if credits (session_client_info s) = 0 \<or> num_tx (client_info sl) = - 1 then r
          else set_session (fst p)
                 (s\<lparr>session_client_info :=
                      (session_client_info s)\<lparr>credits :=
                         credits (session_client_info s) - 1\<rparr>,
                    sslot_arr :=
                      (sslot_arr s)[snd p := sl\<lparr>client_info :=
                         (client_info sl)\<lparr>num_tx := num_tx (client_info sl) + 1\<rparr>\<rparr>]\<rparr>) r)"

definition ex_req_pkts_pending :: "sslot_ptr \<Rightarrow> ex_other Rpc \<Rightarrow> bool" where
  "ex_req_pkts_pending p r =
     (case get_sslot r p of
        None \<Rightarrow> False
      | Some (s, sl) \<Rightarrow>
          (case tx_msgbuf sl of
             None \<Rightarrow> False
           | Some mb \<Rightarrow> num_tx (client_info sl) < num_pkts mb))"

text \<open>
  The helper functions of the concrete endpoint: the burst posts the TX batch to the send
  queue, the flush empties the send queue, and a wheel insertion or a session-management
  request is counted.
\<close>

definition ex_hand :: "ex_other Rpc \<Rightarrow> ex_other Rpc" where
  "ex_hand r = r\<lparr>other := (other r)\<lparr>handed := Suc (handed (other r))\<rparr>\<rparr>"

definition ex_do_tx_burst_st :: "ex_other Rpc \<Rightarrow> ex_other Rpc" where
  "ex_do_tx_burst_st r =
     r\<lparr>tx_batch_i := 0,
       other := (other r)\<lparr>send_queue := send_queue (other r) + unat (tx_batch_i r)\<rparr>\<rparr>"

definition ex_tx_flush :: "ex_other Rpc \<Rightarrow> ex_other Rpc" where
  "ex_tx_flush r = r\<lparr>other := (other r)\<lparr>send_queue := 0\<rparr>\<rparr>"

definition ex_externs :: "bool \<Rightarrow> bool \<Rightarrow> ex_other externs" where
  "ex_externs pacing testing =
     \<lparr>kSessionCredits = 8, kSMTimeoutMs = 1000, kCcPacing = pacing, kTesting = testing,
      kMTU = 1024, in_dispatch = True,
      rdtsc = (\<lambda>n. 3000000000 + of_nat n),
      to_msec = (\<lambda>c. c div 1000000),
      req_pkts_pending = ex_req_pkts_pending,
      do_tx_burst_st = ex_do_tx_burst_st,
      tx_flush = ex_tx_flush,
      enqueue_wheel_st = (\<lambda>p sz. ex_hand),
      kick_req_st = ex_kick,
      kick_rfr_st = ex_kick,
      send_sm_req_st = (\<lambda>i. ex_hand)\<rparr>"

text \<open>
  The machine after \<open>pkt_loss_retransmit_st\<close> on slot \<open>(0, 0)\<close> with \<open>num_tx = 3\<close>
  and \<open>num_rx = 1\<close>: through the wheel, and through a kick.
\<close>

definition ex_after_wheel :: "ex_other machine" where
  "ex_after_wheel =
     \<lparr>rpc =
        \<lparr>session_vec =
           [Some \<lparr>role = kClient, state = kConnected,
                  sslot_arr =
                    [\<lparr>tx_msgbuf = Some \<lparr>req_num = 8, num_pkts = 4\<rparr>, cur_req_num = 8,
                      client_info =
                        \<lparr>num_tx = 1, num_rx = 1, progress_tsc = 10000000\<rparr>\<rparr>,
                     ex_free_slot],
                  session_client_info =
                    \<lparr>credits = 6, sm_req_ts = 2000, cc_num_retransmissions = 1\<rparr>,
                  local_session_num = 0\<rparr>,
            None],
         ev_loop_tsc = 10000000, rpc_rto_cycles = 5000000, tx_batch_i = 0, stallq = [],
         faults_hard_wheel_bypass = False,
         other = \<lparr>handed = 2, send_queue = 0\<rparr>\<rparr>,
      calls = [Log_retransmitting (0, 0) True, Do_tx_burst_st, Tx_flush,
               Enqueue_wheel_st (0, 0) 1024, Enqueue_wheel_st (0, 0) 1024],
      tsc_reads = 0\<rparr>"

definition ex_after_kick :: "ex_other machine" where
  "ex_after_kick =
     \<lparr>rpc =
        \<lparr>session_vec =
           [Some \<lparr>role = kClient, state = kConnected,
                  sslot_arr =
                    [\<lparr>tx_msgbuf = Some \<lparr>req_num = 8, num_pkts = 4\<rparr>, cur_req_num = 8,
                      client_info =
                        \<lparr>num_tx = 2, num_rx = 1, progress_tsc = 10000000\<rparr>\<rparr>,
                     ex_free_slot],
                  session_client_info =
                    \<lparr>credits = 7, sm_req_ts = 2000, cc_num_retransmissions = 1\<rparr>,
                  local_session_num = 0\<rparr>,
            None],
         ev_loop_tsc = 10000000, rpc_rto_cycles = 5000000, tx_batch_i = 0, stallq = [],
         faults_hard_wheel_bypass = False,
         other = \<lparr>handed = 0, send_queue = 0\<rparr>\<rparr>,
      calls = [Log_retransmitting (0, 0) True, Do_tx_burst_st, Tx_flush, Kick_req_st (0, 0)],
      tsc_reads = 0\<rparr>"

text \<open>
  An endpoint with a mixed session vector: a connected client session with two packets
  in flight on slot 0, a client session that is connecting and has sent nothing, a client
  session under reset, a null entry and a server session; and the machine after one scan
  of it.
\<close>

definition ex_mixed_machine :: "ex_other machine" where
  "ex_mixed_machine =
     \<lparr>rpc =
        \<lparr>session_vec =
           [Some (ex_session kClient kConnected 3 1),
            Some (ex_session kClient kConnectInProgress 0 0),
            Some (ex_session kClient kResetInProgress 3 1),
            None,
            Some (ex_session kServer kConnected 3 1)],
         ev_loop_tsc = 10000000, rpc_rto_cycles = 5000000, tx_batch_i = 1, stallq = [],
         faults_hard_wheel_bypass = False,
         other = \<lparr>handed = 0, send_queue = 2\<rparr>\<rparr>,
      calls = [], tsc_reads = 0\<rparr>"

definition ex_mixed_after :: "ex_other machine" where
  "ex_mixed_after =
     \<lparr>rpc =
        \<lparr>session_vec =
           [Some \<lparr>role = kClient, state = kConnected,
                  sslot_arr =
                    [\<lparr>tx_msgbuf = Some \<lparr>req_num = 8, num_pkts = 4\<rparr>, cur_req_num = 8,
                      client_info =
                        \<lparr>num_tx = 1, num_rx = 1, progress_tsc = 10000000\<rparr>\<rparr>,
                     ex_free_slot],
                  session_client_info =
                    \<lparr>credits = 6, sm_req_ts = 2000, cc_num_retransmissions = 1\<rparr>,
                  local_session_num = 0\<rparr>,
            Some (ex_session kClient kConnectInProgress 0 0),
            Some (ex_session kClient kResetInProgress 3 1),
            None,
            Some (ex_session kServer kConnected 3 1)],
         ev_loop_tsc = 10000000, rpc_rto_cycles = 5000000, tx_batch_i = 0, stallq = [],
         faults_hard_wheel_bypass = False,
         other = \<lparr>handed = 3, send_queue = 0\<rparr>\<rparr>,
      calls = [Log_retransmitting (0, 0) True, Do_tx_burst_st, Tx_flush,
               Enqueue_wheel_st (0, 0) 1024, Enqueue_wheel_st (0, 0) 1024,
               Send_sm_req_st 1],
      tsc_reads = 1\<rparr>"

text \<open>A resolver that knows two hosts, and a socket that reaches one of them.\<close>

definition ex_asio :: "(nat, string) asio" where
  "ex_asio =
     \<lparr>resolve = (\<lambda>h s. if h = ''server'' then ([7], [])
                        else if h = ''down'' then ([9], [])
                        else ([], ''Host not found'')),
      send_to = (\<lambda>msg sz ep. if ep = 7 then Inr sz
                              else Inl (System_error ''Network is unreachable''))\<rparr>"

section \<open>Basic facts about the machine\<close>

lemma log_reorder_simps [simp]:
  "rpc (log_reorder c m) = rpc m"
  "calls (log_reorder c m) = calls m @ [c]"
  "tsc_reads (log_reorder c m) = tsc_reads m"
  by (simp_all add: log_reorder_def)

lemma invoke_simps [simp]:
  "rpc (invoke c f m) = f (rpc m)"
  "calls (invoke c f m) = calls m @ [c]"
  "tsc_reads (invoke c f m) = tsc_reads m"
  by (simp_all add: invoke_def)

lemma invoke_pow_rpc: "rpc ((invoke c f ^^ n) m) = (f ^^ n) (rpc m)"
  by (induction n) simp_all

lemma invoke_pow_calls: "calls ((invoke c f ^^ n) m) = calls m @ replicate n c"
  by (induction n) (simp_all add: replicate_append_same)

lemma rollback_st_simps [simp]:
  "calls (rollback_st p s d m) = calls m"
  "tsc_reads (rollback_st p s d m) = tsc_reads m"
  "stallq (rpc (rollback_st p s d m)) = stallq (rpc m)"
  "tx_batch_i (rpc (rollback_st p s d m)) = tx_batch_i (rpc m)"
  "ev_loop_tsc (rpc (rollback_st p s d m)) = ev_loop_tsc (rpc m)"
  "faults_hard_wheel_bypass (rpc (rollback_st p s d m)) = faults_hard_wheel_bypass (rpc m)"
  "other (rpc (rollback_st p s d m)) = other (rpc m)"
  by (simp_all add: rollback_st_def set_session_def)

lemma drain_tx_calls:
  "calls (drain_tx env m) =
     calls m @ (if 0 < tx_batch_i (rpc m) then [Do_tx_burst_st] else []) @ [Tx_flush]"
  by (simp add: drain_tx_def Let_def)

lemma drain_tx_rpc:
  "rpc (drain_tx env m) =
     tx_flush env (if 0 < tx_batch_i (rpc m) then do_tx_burst_st env (rpc m) else rpc m)"
  by (simp add: drain_tx_def Let_def)

lemma get_sslotD:
  assumes "get_sslot r p = Some (s, sl)"
  shows "fst p < length (session_vec r)" and "session_vec r ! fst p = Some s"
    and "get_session r (fst p) = Some s"
    and "snd p < length (sslot_arr s)" and "sl = sslot_arr s ! snd p"
  using assms by (auto simp: get_sslot_def get_session_def split: option.splits if_splits)

lemma get_session_set_session:
  "i < length (session_vec r) \<Longrightarrow> get_session (set_session i s r) i = Some s"
  by (simp add: get_session_def set_session_def)

lemma retransmit_unfold:
  assumes "in_dispatch env" and "get_sslot (rpc m) p = Some (s, sl)"
    and "tx_msgbuf sl = Some mb"
    and "credits (session_client_info s)
           + (num_tx (client_info sl) - num_rx (client_info sl)) \<le> kSessionCredits env"
    and "num_tx (client_info sl) \<noteq> num_rx (client_info sl)"
    and "p \<notin> set (stallq (rpc m))"
  shows "pkt_loss_retransmit_st env p m =
           reinject env p (num_tx (client_info sl) - num_rx (client_info sl))
             (drain_tx env
                (rollback_st p s (num_tx (client_info sl) - num_rx (client_info sl))
                   (log_reorder
                      (Log_retransmitting p (num_rx (client_info sl) < num_pkts mb)) m)))"
  using assms by (simp add: pkt_loss_retransmit_st_def Let_def)

lemma retransmit_InrD:
  assumes "pkt_loss_retransmit_st env p m = Inr m'"
    and "get_sslot (rpc m) p = Some (s, sl)"
  shows "in_dispatch env" and "\<exists>mb. tx_msgbuf sl = Some mb"
    and "credits (session_client_info s)
           + (num_tx (client_info sl) - num_rx (client_info sl)) \<le> kSessionCredits env"
    and "num_tx (client_info sl) \<noteq> num_rx (client_info sl) \<Longrightarrow> p \<notin> set (stallq (rpc m))"
  using assms
  by (auto simp: pkt_loss_retransmit_st_def Let_def split: option.splits if_splits)

lemma get_sslot_rollback_st:
  assumes "get_sslot (rpc m) p = Some (s, sl)"
  shows "get_sslot (rpc (rollback_st p s d m)) p =
           Some (rollback (snd p) d (ev_loop_tsc (rpc m)) s,
                 sl\<lparr>client_info := (client_info sl)\<lparr>num_tx := num_rx (client_info sl),
                        progress_tsc := ev_loop_tsc (rpc m)\<rparr>\<rparr>)"
  using get_sslotD [OF assms]
  by (simp add: get_sslot_def rollback_st_def get_session_set_session)
     (simp add: rollback_def Let_def)

lemma rollback_session_client_info:
  "session_client_info (rollback j d now s) =
     (session_client_info s)\<lparr>cc_num_retransmissions :=
         cc_num_retransmissions (session_client_info s) + 1,
       credits := credits (session_client_info s) + d\<rparr>"
  by (simp add: rollback_def Let_def)

lemma reinject_calls:
  assumes "reinject env p d m0 = Inr m'"
  shows "calls m' = calls m0 @
           (if wheel_path env (rpc m0) then replicate (unat d) (Enqueue_wheel_st p (kMTU env))
            else if req_pkts_pending env p (rpc m0) then [Kick_req_st p]
            else [Kick_rfr_st p])"
  using assms
  by (auto simp: reinject_def wheel_path_def Let_def invoke_pow_calls
           split: if_splits sum.splits)

lemma funpow_two: "(f ^^ 2) x = f (f x)"
  by (simp add: numeral_2_eq_2)

lemma reinject_rpc_kick:
  assumes "reinject env p d m0 = Inr m'" and "\<not> wheel_path env (rpc m0)"
  shows "rpc m' = (if req_pkts_pending env p (rpc m0) then kick_req_st env p (rpc m0)
                   else kick_rfr_st env p (rpc m0))"
  using assms by (auto simp: reinject_def wheel_path_def split: if_splits)

section \<open>Facts about the scan\<close>




lemma sm_pkt_loss_simps:
  "tsc_reads (sm_pkt_loss env i s m) = Suc (tsc_reads m)"
  "calls (sm_pkt_loss env i s m) =
     calls m @ (if kSMTimeoutMs env
                    < to_msec env (rdtsc env (tsc_reads m) - sm_req_ts (session_client_info s))
                then [Send_sm_req_st i] else [])"
  "rpc (sm_pkt_loss env i s m) =
     (if kSMTimeoutMs env
           < to_msec env (rdtsc env (tsc_reads m) - sm_req_ts (session_client_info s))
      then send_sm_req_st env i (rpc m) else rpc m)"
  by (simp_all add: sm_pkt_loss_def Let_def)

lemma scan_session_no_work:
  assumes "i < length (session_vec (rpc m))" and "no_scan_work (session_vec (rpc m) ! i)"
  shows "scan_session env i m = Inr m"
  using assms by (auto simp: scan_session_def no_scan_work_def split: option.splits)

section \<open>Facts about the UDP client\<close>

lemma sint_small: "uint n < 2 ^ 63 \<Longrightarrow> sint n = uint n" for n :: size_t
proof -
  assume a: "uint n < 2 ^ 63"
  have "sint n = signed_take_bit 63 (uint n)"
    by (simp add: sint_uint)
  also have "\<dots> = uint n"
  proof (rule signed_take_bit_int_eq_self)
    have "(0::int) \<le> uint n" and "- (2 ^ 63) \<le> (0::int)" by simp_all
    then show "- (2 ^ 63) \<le> uint n" by (rule order_trans [rotated])
    show "uint n < 2 ^ 63" by (rule a)
  qed
  finally show ?thesis .
qed

lemma to_string_port: "to_string (unat (31850 :: 16 word)) = ''31850''"
  by (simp add: to_string.simps)

section \<open>The credit counters through the helper calls\<close>

lemma keeps_countersD: "keeps_counters f i \<Longrightarrow> counters (f r) i = counters r i"
  by (simp add: keeps_counters_def)

lemma counters_funpow:
  "keeps_counters f i \<Longrightarrow> counters ((f ^^ n) r) i = counters r i"
  by (induction n) (simp_all add: keeps_countersD)

lemma counters_drain_tx:
  assumes "keeps_counters (do_tx_burst_st env) i" and "keeps_counters (tx_flush env) i"
  shows "counters (rpc (drain_tx env m)) i = counters (rpc m) i"
  using assms by (simp add: drain_tx_rpc keeps_countersD)

lemma counters_rollback_st:
  assumes "get_sslot (rpc m) p = Some (s, sl)"
  shows "counters (rpc (rollback_st p s d m)) (fst p) =
           Some (credits (session_client_info s) + d,
                 (map (\<lambda>sl. (num_tx (client_info sl), num_rx (client_info sl))) (sslot_arr s))
                   [snd p := (num_rx (client_info sl), num_rx (client_info sl))])"
  using get_sslotD [OF assms]
  by (simp add: counters_def rollback_st_def get_session_set_session)
     (simp add: rollback_def Let_def map_update)

lemma counters_sub_credits:
  assumes "counters r i = Some (c, l)"
  shows "\<exists>r'. sub_credits i d r = Inr r' \<and> counters r' i = Some (c - d, l)"
proof -
  from assms obtain s where s: "get_session r i = Some s"
    and c: "c = credits (session_client_info s)"
    and l: "l = map (\<lambda>sl. (num_tx (client_info sl), num_rx (client_info sl))) (sslot_arr s)"
    by (auto simp: counters_def split: option.splits)
  from s have i: "i < length (session_vec r)"
    by (simp add: get_session_def split: if_splits)
  show ?thesis
    using s c l by (simp add: sub_credits_def counters_def get_session_set_session [OF i])
qed

lemma reinject_wheel_counters:
  assumes "wheel_path env (rpc m0)" and "counters (rpc m0) (fst p) = Some (c, l)"
    and "keeps_counters (enqueue_wheel_st env p (kMTU env)) (fst p)"
  shows "\<exists>m'. reinject env p d m0 = Inr m' \<and> counters (rpc m') (fst p) = Some (c - d, l)"
proof -
  let ?m1 = "((invoke (Enqueue_wheel_st p (kMTU env)) (enqueue_wheel_st env p (kMTU env)))
                ^^ unat d) m0"
  have "counters (rpc ?m1) (fst p) = Some (c, l)"
    using assms(2,3) by (simp add: invoke_pow_rpc counters_funpow)
  from counters_sub_credits [OF this, of d] obtain r'
    where "sub_credits (fst p) d (rpc ?m1) = Inr r'" and "counters r' (fst p) = Some (c - d, l)"
    by blast
  then show ?thesis
    using assms(1) by (simp add: reinject_def wheel_path_def Let_def)
qed

lemma credit_invariant_counters:
  "credit_invariant env p r =
     (case counters r (fst p) of
        None \<Rightarrow> False
      | Some (c, l) \<Rightarrow>
          snd p < length l
          \<and> uint c + (uint (fst (l ! snd p)) - uint (snd (l ! snd p)))
              \<le> uint (kSessionCredits env))"
  by (auto simp: credit_invariant_def counters_def get_sslot_def split: option.splits)

lemma invariant_no_wrap:
  fixes c tx rx k :: size_t
  assumes "rx \<le> tx" and "uint c + (uint tx - uint rx) \<le> uint k"
  shows "uint (c + (tx - rx)) = uint c + (uint tx - uint rx)" and "c + (tx - rx) \<le> k"
    and "uint c \<le> uint k"
proof -
  have le: "uint rx \<le> uint tx"
    using assms(1) by (simp add: word_le_def)
  then have d: "uint (tx - rx) = uint tx - uint rx"
    by (simp add: uint_sub_if')
  have "uint c + uint (tx - rx) < 2 ^ 64"
    using assms(2) d uint_lt2p [of k] by simp
  then show a: "uint (c + (tx - rx)) = uint c + (uint tx - uint rx)"
    using d by (simp add: uint_add_lem [THEN iffD1])
  then show "c + (tx - rx) \<le> k"
    using assms(2) by (simp add: word_le_def)
  show "uint c \<le> uint k"
    using assms(2) le by simp
qed

lemma rpc_drain_rollback_log:
  "rpc (drain_tx env (rollback_st p s d (log_reorder c m))) =
   rpc (drain_tx env (rollback_st p s d m))"
  by (simp add: drain_tx_rpc rollback_st_def)

lemma counters_mid:
  assumes "get_sslot (rpc m) p = Some (s, sl)"
    and "keeps_counters (do_tx_burst_st env) (fst p)" and "keeps_counters (tx_flush env) (fst p)"
  shows "counters (rpc (drain_tx env (rollback_st p s d m))) (fst p) =
           Some (credits (session_client_info s) + d,
                 (map (\<lambda>sl. (num_tx (client_info sl), num_rx (client_info sl))) (sslot_arr s))
                   [snd p := (num_rx (client_info sl), num_rx (client_info sl))])"
  using counters_drain_tx [OF assms(2,3)] counters_rollback_st [OF assms(1)] by simp

lemma countersD:
  "counters r i = Some (c, l) \<Longrightarrow>
     \<exists>s. get_session r i = Some s \<and> credits (session_client_info s) = c"
  by (auto simp: counters_def split: option.splits)

lemma reinject_kick:
  assumes "\<not> wheel_path env (rpc m0)"
  shows "\<exists>m'. reinject env p d m0 = Inr m'
            \<and> rpc m' = (if req_pkts_pending env p (rpc m0) then kick_req_st env p (rpc m0)
                         else kick_rfr_st env p (rpc m0))"
  using assms by (auto simp: reinject_def wheel_path_def)

section \<open>The cases of a retransmission and of a visit\<close>

text \<open>
  A call of \<open>pkt_loss_retransmit_st\<close> that returns has either logged a false positive
  or rolled the slot back, drained and re-injected; a visit of the scan to a slot or to a
  session has one of a few outcomes. A property of the \<open>Rpc\<close> object that every step of
  a visit keeps is kept by the scan.
\<close>

lemma funpow_keeps: "(\<And>r. P r \<Longrightarrow> P (f r)) \<Longrightarrow> P r \<Longrightarrow> P ((f ^^ n) r)"
  by (induction n) simp_all

lemma reinject_rpc_wheel:
  assumes "reinject env q d m0 = Inr m'" and "wheel_path env (rpc m0)"
  shows "sub_credits (fst q) d ((enqueue_wheel_st env q (kMTU env) ^^ unat d) (rpc m0))
           = Inr (rpc m')"
  using assms
  by (auto simp: reinject_def wheel_path_def Let_def invoke_pow_rpc split: sum.splits)

lemma retransmit_cases:
  assumes "pkt_loss_retransmit_st env q m = Inr m'"
  obtains (not_lost) s sl where "get_sslot (rpc m) q = Some (s, sl)"
      and "num_tx (client_info sl) = num_rx (client_info sl)"
      and "m' = log_reorder (Log_false_positive q) m"
    | (rolled_back) s sl mb where "get_sslot (rpc m) q = Some (s, sl)"
      and "tx_msgbuf sl = Some mb"
      and "num_tx (client_info sl) \<noteq> num_rx (client_info sl)"
      and "reinject env q (num_tx (client_info sl) - num_rx (client_info sl))
             (drain_tx env
                (rollback_st q s (num_tx (client_info sl) - num_rx (client_info sl))
                   (log_reorder
                      (Log_retransmitting q (num_rx (client_info sl) < num_pkts mb)) m)))
           = Inr m'"
proof (cases "get_sslot (rpc m) q")
  case None
  then show ?thesis
    using assms by (simp add: pkt_loss_retransmit_st_def split: if_splits)
next
  case (Some a)
  obtain s sl where a: "a = (s, sl)" by (cases a)
  note g = Some [unfolded a]
  from retransmit_InrD(2) [OF assms g] obtain mb where mb: "tx_msgbuf sl = Some mb" ..
  show ?thesis
  proof (cases "num_tx (client_info sl) = num_rx (client_info sl)")
    case True
    then have "m' = log_reorder (Log_false_positive q) m"
      using assms g mb by (auto simp: pkt_loss_retransmit_st_def split: if_splits)
    with g True show ?thesis by (rule not_lost)
  next
    case False
    have "pkt_loss_retransmit_st env q m =
            reinject env q (num_tx (client_info sl) - num_rx (client_info sl))
              (drain_tx env
                 (rollback_st q s (num_tx (client_info sl) - num_rx (client_info sl))
                    (log_reorder
                       (Log_retransmitting q (num_rx (client_info sl) < num_pkts mb)) m)))"
      using retransmit_unfold [OF retransmit_InrD(1) [OF assms g] g mb
          retransmit_InrD(3) [OF assms g] False retransmit_InrD(4) [OF assms g False]] .
    with assms have "reinject env q (num_tx (client_info sl) - num_rx (client_info sl))
              (drain_tx env
                 (rollback_st q s (num_tx (client_info sl) - num_rx (client_info sl))
                    (log_reorder
                       (Log_retransmitting q (num_rx (client_info sl) < num_pkts mb)) m)))
            = Inr m'"
      by simp
    with g mb False show ?thesis by (rule rolled_back)
  qed
qed

lemma visit_keepsD:
  assumes "visit_keeps env P q" and "P r"
  shows "P (do_tx_burst_st env r)" and "P (tx_flush env r)"
    and "P (enqueue_wheel_st env q sz r)"
    and "P (kick_req_st env q r)" and "P (kick_rfr_st env q r)"
    and "get_sslot r q = Some (s, sl)
           \<Longrightarrow> P (set_session (fst q) (rollback (snd q) d (ev_loop_tsc r) s) r)"
    and "sub_credits (fst q) d r = Inr r' \<Longrightarrow> P r'"
  using assms unfolding visit_keeps_def by blast+

lemma retransmit_keeps:
  assumes v: "visit_keeps env P q" and p: "P (rpc m)"
    and r: "pkt_loss_retransmit_st env q m = Inr m'"
  shows "P (rpc m')"
  using r
proof (cases rule: retransmit_cases)
  case (not_lost s sl)
  then show ?thesis using p by simp
next
  case (rolled_back s sl mb)
  let ?d = "num_tx (client_info sl) - num_rx (client_info sl)"
  let ?rb = "rollback_st q s ?d
               (log_reorder (Log_retransmitting q (num_rx (client_info sl) < num_pkts mb)) m)"
  have rb: "rpc ?rb = set_session (fst q) (rollback (snd q) ?d (ev_loop_tsc (rpc m)) s) (rpc m)"
    by (simp add: rollback_st_def)
  have prb: "P (rpc ?rb)"
    unfolding rb by (rule visit_keepsD(6) [OF v p rolled_back(1)])
  have mid: "P (rpc (drain_tx env ?rb))"
  proof (cases "0 < tx_batch_i (rpc ?rb)")
    case True
    then have "rpc (drain_tx env ?rb) = tx_flush env (do_tx_burst_st env (rpc ?rb))"
      by (simp add: drain_tx_rpc)
    then show ?thesis
      using visit_keepsD(2) [OF v visit_keepsD(1) [OF v prb]] by simp
  next
    case False
    then have "rpc (drain_tx env ?rb) = tx_flush env (rpc ?rb)"
      by (simp add: drain_tx_rpc)
    then show ?thesis
      using visit_keepsD(2) [OF v prb] by simp
  qed
  show ?thesis
  proof (cases "wheel_path env (rpc (drain_tx env ?rb))")
    case True
    have "P ((enqueue_wheel_st env q (kMTU env) ^^ unat ?d) (rpc (drain_tx env ?rb)))"
      by (rule funpow_keeps [where P = P, OF visit_keepsD(3) [OF v] mid])
    then show ?thesis
      by (rule visit_keepsD(7) [OF v _ reinject_rpc_wheel [OF rolled_back(4) True]])
  next
    case False
    show ?thesis
      using reinject_rpc_kick [OF rolled_back(4) False]
        visit_keepsD(4) [OF v mid] visit_keepsD(5) [OF v mid]
      by simp
  qed
qed

lemma scan_sslot_cases:
  assumes "scan_sslot env q m = Inr m'"
  obtains (skipped) "m' = m"
    | (retransmit) s sl mb where "get_sslot (rpc m) q = Some (s, sl)"
      and "tx_msgbuf sl = Some mb" and "num_tx (client_info sl) \<noteq> 0"
      and "rpc_rto_cycles (rpc m) < ev_loop_tsc (rpc m) - progress_tsc (client_info sl)"
      and "pkt_loss_retransmit_st env q m = Inr m'"
  using assms
  by (auto simp: scan_sslot_def Let_def split: option.splits if_splits)

lemma scan_sslot_keeps:
  assumes "visit_keeps env P q" and "P (rpc m)" and "scan_sslot env q m = Inr m'"
  shows "P (rpc m')"
  using assms(3)
proof (cases rule: scan_sslot_cases)
  case skipped
  then show ?thesis using assms(2) by simp
next
  case (retransmit s sl mb)
  then show ?thesis using retransmit_keeps [OF assms(1,2)] by simp
qed

lemma scan_sslots_keeps:
  assumes "\<forall>j \<in> set js. visit_keeps env P (i, j)" and "P (rpc m)"
    and "scan_sslots env i js m = Inr m'"
  shows "P (rpc m')"
  using assms
proof (induction js arbitrary: m)
  case Nil
  then show ?case by simp
next
  case (Cons j js)
  from Cons.prems(3) obtain m1 where s: "scan_sslot env (i, j) m = Inr m1"
    and t: "scan_sslots env i js m1 = Inr m'"
    by (auto split: sum.splits)
  have "P (rpc m1)"
    using scan_sslot_keeps [where P = P, OF _ Cons.prems(2) s] Cons.prems(1) by simp
  then show ?case
    using Cons.IH [of m1] t Cons.prems(1) by simp
qed

lemma scan_session_cases:
  assumes "scan_session env i m = Inr m'"
  obtains (passed) "i < length (session_vec (rpc m))"
      and "no_scan_work (session_vec (rpc m) ! i)" and "m' = m"
    | (datapath) s where "i < length (session_vec (rpc m))"
      and "session_vec (rpc m) ! i = Some s" and "role s = kClient"
      and "state s = kConnected"
      and "scan_sslots env i [0..<length (sslot_arr s)] m = Inr m'"
    | (management) s where "i < length (session_vec (rpc m))"
      and "session_vec (rpc m) ! i = Some s" and "role s = kClient"
      and "state s = kConnectInProgress \<or> state s = kDisconnectInProgress"
      and "m' = sm_pkt_loss env i s m"
proof -
  have i: "i < length (session_vec (rpc m))"
    using assms by (auto simp: scan_session_def split: if_splits)
  show ?thesis
  proof (cases "no_scan_work (session_vec (rpc m) ! i)")
    case True
    with i have "scan_session env i m = Inr m"
      by (rule scan_session_no_work)
    with assms have "m' = m" by simp
    with i True show ?thesis by (rule passed)
  next
    case False
    then obtain s where s: "session_vec (rpc m) ! i = Some s"
      and ns: "\<not> is_server s" and st: "state s \<noteq> kResetInProgress"
      by (auto simp: no_scan_work_def split: option.splits)
    from ns have c: "role s = kClient"
      by (cases "role s") (simp_all add: is_server_def)
    show ?thesis
    proof (cases "state s = kConnected")
      case True
      then have "scan_sslots env i [0..<length (sslot_arr s)] m = Inr m'"
        using assms i s ns by (simp add: scan_session_def)
      with i s c True show ?thesis by (rule datapath)
    next
      case nc: False
      with st have sm: "state s = kConnectInProgress \<or> state s = kDisconnectInProgress"
        by (cases "state s") simp_all
      then have "m' = sm_pkt_loss env i s m"
        using assms i s ns by (auto simp: scan_session_def)
      with i s c sm show ?thesis by (rule management)
    qed
  qed
qed

lemma sm_pkt_loss_keeps:
  assumes "sm_keeps env P i" and "P (rpc m)"
  shows "P (rpc (sm_pkt_loss env i s m))"
proof -
  have "P (send_sm_req_st env i (rpc m))"
    using assms unfolding sm_keeps_def by blast
  then show ?thesis
    using assms(2) by (simp add: sm_pkt_loss_simps)
qed

lemma scan_session_keeps:
  assumes "\<forall>j. visit_keeps env P (i, j)" and "sm_keeps env P i" and "P (rpc m)"
    and "scan_session env i m = Inr m'"
  shows "P (rpc m')"
  using assms(4)
proof (cases rule: scan_session_cases)
  case passed
  then show ?thesis using assms(3) by simp
next
  case (datapath s)
  then show ?thesis
    using scan_sslots_keeps [where P = P, OF _ assms(3)] assms(1) by blast
next
  case (management s)
  then show ?thesis
    using sm_pkt_loss_keeps [OF assms(2,3)] by simp
qed

lemma scan_sessions_keeps:
  assumes "\<forall>k \<in> set ks. (\<forall>j. visit_keeps env P (k, j)) \<and> sm_keeps env P k"
    and "P (rpc m)" and "scan_sessions env ks m = Inr m'"
  shows "P (rpc m')"
  using assms
proof (induction ks arbitrary: m)
  case Nil
  then show ?case by simp
next
  case (Cons k ks)
  from Cons.prems(3) obtain m1 where s: "scan_session env k m = Inr m1"
    and t: "scan_sessions env ks m1 = Inr m'"
    by (auto split: sum.splits)
  have "P (rpc m1)"
    using scan_session_keeps [where P = P, OF _ _ Cons.prems(2) s] Cons.prems(1) by simp
  then show ?case
    using Cons.IH [of m1] t Cons.prems(1) by simp
qed

section \<open>What the visits to other sessions and slots leave alone\<close>


lemma sub_credits_InrD:
  assumes "sub_credits k d r = Inr r'"
  obtains s where "get_session r k = Some s"
    and "r' = set_session k
                (s\<lparr>session_client_info :=
                     (session_client_info s)\<lparr>credits :=
                        credits (session_client_info s) - d\<rparr>\<rparr>) r"
  using assms by (auto simp: sub_credits_def split: option.splits)

lemma entry_view_set_session:
  "k \<noteq> i \<Longrightarrow> entry_view (set_session k s r) i = entry_view r i"
  by (simp add: entry_view_def set_session_def)

lemma entry_view_sub_credits:
  assumes "sub_credits k d r = Inr r'"
  shows "entry_view r' i = entry_view r i"
  using assms
proof (cases rule: sub_credits_InrD)
  case (1 s)
  then show ?thesis
    by (cases "k = i")
       (auto simp: entry_view_def set_session_def get_session_def split: if_splits)
qed

lemma others_keep_entryD:
  assumes "others_keep_entry env i"
  shows "entry_view (do_tx_burst_st env r) i = entry_view r i"
    and "entry_view (tx_flush env r) i = entry_view r i"
    and "fst q \<noteq> i \<Longrightarrow> entry_view (enqueue_wheel_st env q sz r) i = entry_view r i"
    and "fst q \<noteq> i \<Longrightarrow> entry_view (kick_req_st env q r) i = entry_view r i"
    and "fst q \<noteq> i \<Longrightarrow> entry_view (kick_rfr_st env q r) i = entry_view r i"
    and "k \<noteq> i \<Longrightarrow> entry_view (send_sm_req_st env k r) i = entry_view r i"
  using assms unfolding others_keep_entry_def by blast+

lemma others_keep_entry_visit:
  assumes "others_keep_entry env i" and "fst q \<noteq> i"
  shows "visit_keeps env (\<lambda>r. entry_view r i = v) q"
  unfolding visit_keeps_def
  using assms(2)
  by (auto simp: others_keep_entryD [OF assms(1)] entry_view_set_session
        entry_view_sub_credits)

lemma others_keep_entry_sm:
  assumes "others_keep_entry env i" and "k \<noteq> i"
  shows "sm_keeps env (\<lambda>r. entry_view r i = v) k"
  unfolding sm_keeps_def
  using assms(2) by (simp add: others_keep_entryD [OF assms(1)])







section \<open>The calls recorded by a scan\<close>

text \<open>
  Whatever returns only appends to the record of calls, and every call that a visit
  records is about no session at all (\<open>do_tx_burst_st\<close>, \<open>tx_flush\<close>) or about the
  session visited.
\<close>

lemma scan_calls_self [simp]: "scan_calls m m = []"
  by (simp add: scan_calls_def)

lemma scan_calls_append: "calls m' = calls m @ seg \<Longrightarrow> scan_calls m m' = seg"
  by (simp add: scan_calls_def)

lemma scan_calls_trans:
  assumes "calls m1 = calls m @ scan_calls m m1" and "calls m2 = calls m1 @ scan_calls m1 m2"
  shows "calls m2 = calls m @ scan_calls m m2"
    and "scan_calls m m2 = scan_calls m m1 @ scan_calls m1 m2"
proof -
  have "calls m2 = calls m @ (scan_calls m m1 @ scan_calls m1 m2)"
    using assms by simp
  from scan_calls_append [OF this] this
  show "calls m2 = calls m @ scan_calls m m2"
    and "scan_calls m m2 = scan_calls m m1 @ scan_calls m1 m2"
    by simp_all
qed



lemma no_sm_req_of_other_session:
  assumes "\<forall>c \<in> set seg. call_session c = None \<or> (\<exists>k \<in> K. call_session c = Some k)"
    and "i \<notin> K"
  shows "count_list seg (Send_sm_req_st i) = 0"
  using assms by (auto simp: count_list_0_iff)

lemma retransmit_seg:
  assumes "pkt_loss_retransmit_st env q m = Inr m'"
  shows "calls m' = calls m @ scan_calls m m'"
    and "\<forall>c \<in> set (scan_calls m m'). call_session c = None \<or> call_session c = Some (fst q)"
    and "length [c \<leftarrow> scan_calls m m'. loss_log_of c = Some p] = (if p = q then 1 else 0)"
proof -
  have "\<exists>seg. calls m' = calls m @ seg
          \<and> (\<forall>c \<in> set seg. call_session c = None \<or> call_session c = Some (fst q))
          \<and> length [c \<leftarrow> seg. loss_log_of c = Some p] = (if p = q then 1 else 0)"
    using assms
  proof (cases rule: retransmit_cases)
    case (not_lost s sl)
    then show ?thesis by simp
  next
    case (rolled_back s sl mb)
    from reinject_calls [OF rolled_back(4)] show ?thesis
      by (auto simp: drain_tx_calls)
  qed
  then obtain seg where seg: "calls m' = calls m @ seg"
      and a: "\<forall>c \<in> set seg. call_session c = None \<or> call_session c = Some (fst q)"
      and b: "length [c \<leftarrow> seg. loss_log_of c = Some p] = (if p = q then 1 else 0)"
    by blast
  from scan_calls_append [OF seg] seg a b
  show "calls m' = calls m @ scan_calls m m'"
    and "\<forall>c \<in> set (scan_calls m m'). call_session c = None \<or> call_session c = Some (fst q)"
    and "length [c \<leftarrow> scan_calls m m'. loss_log_of c = Some p] = (if p = q then 1 else 0)"
    by simp_all
qed

lemma scan_sslot_seg:
  assumes "scan_sslot env q m = Inr m'"
  shows "calls m' = calls m @ scan_calls m m'"
    and "\<forall>c \<in> set (scan_calls m m'). call_session c = None \<or> call_session c = Some (fst q)"
    and "p \<noteq> q \<Longrightarrow> [c \<leftarrow> scan_calls m m'. loss_log_of c = Some p] = []"
    and "get_sslot (rpc m) q = Some (s, sl) \<Longrightarrow>
           length [c \<leftarrow> scan_calls m m'. loss_log_of c = Some q] =
             (if tx_msgbuf sl \<noteq> None \<and> num_tx (client_info sl) \<noteq> 0
                 \<and> rpc_rto_cycles (rpc m) < ev_loop_tsc (rpc m) - progress_tsc (client_info sl)
              then 1 else 0)"
proof -
  show "calls m' = calls m @ scan_calls m m'"
    using assms
    by (cases rule: scan_sslot_cases) (simp_all add: retransmit_seg(1))
  show "\<forall>c \<in> set (scan_calls m m'). call_session c = None \<or> call_session c = Some (fst q)"
    using assms
    by (cases rule: scan_sslot_cases) (simp_all add: retransmit_seg(2))
  show "[c \<leftarrow> scan_calls m m'. loss_log_of c = Some p] = []" if "p \<noteq> q"
    using assms
  proof (cases rule: scan_sslot_cases)
    case skipped
    then show ?thesis by simp
  next
    case (retransmit s sl mb)
    from retransmit_seg(3) [OF retransmit(5), of p] that show ?thesis by simp
  qed
  show "length [c \<leftarrow> scan_calls m m'. loss_log_of c = Some q] =
             (if tx_msgbuf sl \<noteq> None \<and> num_tx (client_info sl) \<noteq> 0
                 \<and> rpc_rto_cycles (rpc m) < ev_loop_tsc (rpc m) - progress_tsc (client_info sl)
              then 1 else 0)"
    if g: "get_sslot (rpc m) q = Some (s, sl)"
  proof (cases "tx_msgbuf sl \<noteq> None \<and> num_tx (client_info sl) \<noteq> 0
                 \<and> rpc_rto_cycles (rpc m) < ev_loop_tsc (rpc m) - progress_tsc (client_info sl)")
    case True
    then have "scan_sslot env q m = pkt_loss_retransmit_st env q m
               \<or> scan_sslot env q m = Inl Assertion_failed"
      using g by (auto simp: scan_sslot_def Let_def)
    with assms have "pkt_loss_retransmit_st env q m = Inr m'"
      by auto
    from retransmit_seg(3) [OF this, of q] True show ?thesis by simp
  next
    case False
    then have "scan_sslot env q m = Inr m \<or> scan_sslot env q m = Inl Assertion_failed"
      using g by (auto simp: scan_sslot_def Let_def split: option.splits)
    with assms have "m' = m" by auto
    with False show ?thesis by simp
  qed
qed

lemma scan_sslots_seg:
  assumes "scan_sslots env i js m = Inr m'"
  shows "calls m' = calls m @ scan_calls m m'"
    and "\<forall>c \<in> set (scan_calls m m'). call_session c = None \<or> call_session c = Some i"
    and "p \<notin> (\<lambda>j. (i, j)) ` set js \<Longrightarrow> [c \<leftarrow> scan_calls m m'. loss_log_of c = Some p] = []"
proof -
  have "calls m' = calls m @ scan_calls m m'
        \<and> (\<forall>c \<in> set (scan_calls m m'). call_session c = None \<or> call_session c = Some i)
        \<and> (p \<notin> (\<lambda>j. (i, j)) ` set js \<longrightarrow> [c \<leftarrow> scan_calls m m'. loss_log_of c = Some p] = [])"
    using assms
  proof (induction js arbitrary: m)
    case Nil
    then show ?case by simp
  next
    case (Cons j js)
    from Cons.prems obtain m1 where s: "scan_sslot env (i, j) m = Inr m1"
      and t: "scan_sslots env i js m1 = Inr m'"
      by (auto split: sum.splits)
    note a = scan_sslot_seg [OF s]
    note b = Cons.IH [OF t]
    note c = scan_calls_trans [OF a(1) b [THEN conjunct1]]
    show ?case
      using a(2) a(3) [of p] b c by auto
  qed
  then show "calls m' = calls m @ scan_calls m m'"
    and "\<forall>c \<in> set (scan_calls m m'). call_session c = None \<or> call_session c = Some i"
    and "p \<notin> (\<lambda>j. (i, j)) ` set js \<Longrightarrow> [c \<leftarrow> scan_calls m m'. loss_log_of c = Some p] = []"
    by simp_all
qed

lemma sm_pkt_loss_seg:
  "calls (sm_pkt_loss env i s m) = calls m @ scan_calls m (sm_pkt_loss env i s m)"
  "scan_calls m (sm_pkt_loss env i s m) =
     (if kSMTimeoutMs env
           < to_msec env (rdtsc env (tsc_reads m) - sm_req_ts (session_client_info s))
      then [Send_sm_req_st i] else [])"
  by (simp_all add: scan_calls_def sm_pkt_loss_simps)

lemma scan_session_seg:
  assumes "scan_session env i m = Inr m'"
  shows "calls m' = calls m @ scan_calls m m'"
    and "\<forall>c \<in> set (scan_calls m m'). call_session c = None \<or> call_session c = Some i"
proof -
  have "calls m' = calls m @ scan_calls m m'
        \<and> (\<forall>c \<in> set (scan_calls m m'). call_session c = None \<or> call_session c = Some i)"
    using assms
  proof (cases rule: scan_session_cases)
    case passed
    then show ?thesis by simp
  next
    case (datapath s)
    then show ?thesis
      using scan_sslots_seg(1,2) [OF datapath(5)] by simp
  next
    case (management s)
    then show ?thesis
      by (simp add: sm_pkt_loss_seg)
  qed
  then show "calls m' = calls m @ scan_calls m m'"
    and "\<forall>c \<in> set (scan_calls m m'). call_session c = None \<or> call_session c = Some i"
    by simp_all
qed

lemma scan_sessions_seg:
  assumes "scan_sessions env ks m = Inr m'"
  shows "calls m' = calls m @ scan_calls m m'"
    and "\<forall>c \<in> set (scan_calls m m').
           call_session c = None \<or> (\<exists>k \<in> set ks. call_session c = Some k)"
proof -
  have "calls m' = calls m @ scan_calls m m'
        \<and> (\<forall>c \<in> set (scan_calls m m').
              call_session c = None \<or> (\<exists>k \<in> set ks. call_session c = Some k))"
    using assms
  proof (induction ks arbitrary: m)
    case Nil
    then show ?case by simp
  next
    case (Cons k ks)
    from Cons.prems obtain m1 where s: "scan_session env k m = Inr m1"
      and t: "scan_sessions env ks m1 = Inr m'"
      by (auto split: sum.splits)
    note a = scan_session_seg [OF s]
    note b = Cons.IH [OF t]
    note c = scan_calls_trans [OF a(1) b [THEN conjunct1]]
    show ?case
      using a(2) b c by auto
  qed
  then show "calls m' = calls m @ scan_calls m m'"
    and "\<forall>c \<in> set (scan_calls m m').
           call_session c = None \<or> (\<exists>k \<in> set ks. call_session c = Some k)"
    by simp_all
qed

section \<open>A scan as three parts\<close>

text \<open>
  The scan of \<open>session_vec\<close> is the scan of the entries before \<open>i\<close>, the visit to
  \<open>i\<close>, and the scan of the entries after it; likewise for the slots of a session.
\<close>

lemma scan_sessions_append:
  "scan_sessions env (xs @ ys) m =
     (case scan_sessions env xs m of Inl e \<Rightarrow> Inl e | Inr m1 \<Rightarrow> scan_sessions env ys m1)"
  by (induction xs arbitrary: m) (simp_all split: sum.splits)


lemma upt_split: "i < n \<Longrightarrow> [0..<n] = [0..<i] @ i # [Suc i..<n]"
  using upt_add_eq_append [of 0 i "n - i"] by (simp add: upt_conv_Cons)

lemma scan_split:
  assumes "pkt_loss_scan_st env m = Inr m'" and "i < length (session_vec (rpc m))"
  obtains a b where "scan_sessions env [0..<i] m = Inr a"
    and "scan_session env i a = Inr b"
    and "scan_sessions env [Suc i..<length (session_vec (rpc m))] b = Inr m'"
proof -
  have "scan_sessions env ([0..<i] @ i # [Suc i..<length (session_vec (rpc m))]) m = Inr m'"
    using assms upt_split [OF assms(2)]
    by (simp add: pkt_loss_scan_st_def split: if_splits)
  then show ?thesis
    using that by (auto simp: scan_sessions_append split: sum.splits)
qed


lemma scan_prefix_keeps_entry:
  assumes "others_keep_entry env i" and "i \<notin> set ks"
    and "scan_sessions env ks m = Inr a"
  shows "entry_view (rpc a) i = entry_view (rpc m) i"
proof -
  let ?P = "\<lambda>r. entry_view r i = entry_view (rpc m) i"
  have v: "visit_keeps env ?P (k, j)" if "k \<in> set ks" for k j
    by (rule others_keep_entry_visit [OF assms(1)]) (use that assms(2) in auto)
  have w: "sm_keeps env ?P k" if "k \<in> set ks" for k
    by (rule others_keep_entry_sm [OF assms(1)]) (use that assms(2) in auto)
  have "\<forall>k \<in> set ks. (\<forall>j. visit_keeps env ?P (k, j)) \<and> sm_keeps env ?P k"
    using v w by blast
  from scan_sessions_keeps [where P = ?P, OF this _ assms(3)]
  show ?thesis by simp
qed

lemma entry_view_eqD:
  assumes "entry_view r i = entry_view r' i" and "i < length (session_vec r')"
  shows "i < length (session_vec r)"
    and "no_scan_work (session_vec r ! i) = no_scan_work (session_vec r' ! i)"
    and "session_vec r' ! i = Some s \<Longrightarrow>
           \<exists>s2. session_vec r ! i = Some s2 \<and> role s2 = role s \<and> state s2 = state s
              \<and> sm_req_ts (session_client_info s2) = sm_req_ts (session_client_info s)"
proof -
  show i: "i < length (session_vec r)"
    using assms by (simp add: entry_view_def split: if_splits)
  from assms i have e: "map_option (\<lambda>s. (role s, state s, sm_req_ts (session_client_info s)))
                          (session_vec r ! i) =
                        map_option (\<lambda>s. (role s, state s, sm_req_ts (session_client_info s)))
                          (session_vec r' ! i)"
    by (simp add: entry_view_def)
  then show "no_scan_work (session_vec r ! i) = no_scan_work (session_vec r' ! i)"
    by (cases "session_vec r ! i"; cases "session_vec r' ! i")
       (simp_all add: no_scan_work_def is_server_def)
  show "\<exists>s2. session_vec r ! i = Some s2 \<and> role s2 = role s \<and> state s2 = state s
              \<and> sm_req_ts (session_client_info s2) = sm_req_ts (session_client_info s)"
    if "session_vec r' ! i = Some s"
    using e that by (cases "session_vec r ! i") simp_all
qed

lemma scan_calls_three:
  assumes "scan_sessions env [0..<i] m = Inr a" and "scan_session env i a = Inr b"
    and "scan_sessions env [Suc i..<n] b = Inr m'"
  shows "calls m' = calls m @ scan_calls m m'"
    and "scan_calls m m' = scan_calls m a @ scan_calls a b @ scan_calls b m'"
    and "\<forall>c \<in> set (scan_calls m a). call_session c \<noteq> Some i"
    and "\<forall>c \<in> set (scan_calls b m'). call_session c \<noteq> Some i"
proof -
  note p = scan_sessions_seg [OF assms(1)]
  note v = scan_session_seg [OF assms(2)]
  note q = scan_sessions_seg [OF assms(3)]
  note pv = scan_calls_trans [OF p(1) v(1)]
  note all = scan_calls_trans [OF pv(1) q(1)]
  show "calls m' = calls m @ scan_calls m m'" by (rule all(1))
  show "scan_calls m m' = scan_calls m a @ scan_calls a b @ scan_calls b m'"
    using all(2) pv(2) by simp
  show "\<forall>c \<in> set (scan_calls m a). call_session c \<noteq> Some i"
    using p(2) by fastforce
  show "\<forall>c \<in> set (scan_calls b m'). call_session c \<noteq> Some i"
    using q(2) by fastforce
qed




section \<open>The state in which re-injection starts\<close>




section \<open>Facts about the concrete endpoint\<close>

text \<open>The pointer \<open>(0, 0)\<close> of the concrete endpoint is its first slot.\<close>

lemma ex_get_sslot:
  "get_sslot (rpc (ex_machine ro st tx rx)) (0, 0) = Some (ex_session ro st tx rx, ex_slot tx rx)"
  by (simp add: ex_machine_def ex_rpc_def get_sslot_def get_session_def ex_session_def)

lemma ex_stallq: "(0, 0) \<notin> set (stallq (rpc (ex_machine ro st tx rx)))"
  by (simp add: ex_machine_def ex_rpc_def)

lemma ex_session_vec:
  "session_vec (rpc (ex_machine ro st tx rx)) = [Some (ex_session ro st tx rx), None]"
  by (simp add: ex_machine_def ex_rpc_def)

text \<open>
  What \<open>pkt_loss_retransmit_st\<close> returns on the concrete endpoint with two packets
  in flight.
\<close>

lemma ex_retransmit_wheel:
  "pacing \<or> testing \<Longrightarrow>
   pkt_loss_retransmit_st (ex_externs pacing testing) (0, 0)
     (ex_machine kClient kConnected 3 1) = Inr ex_after_wheel"
  by (simp add: pkt_loss_retransmit_st_def ex_get_sslot ex_slot_def ex_session_def
        ex_externs_def ex_hand_def ex_do_tx_burst_st_def ex_tx_flush_def Let_def reinject_def drain_tx_def invoke_def log_reorder_def
        funpow_two sub_credits_def get_session_def set_session_def rollback_st_def
        ex_machine_def ex_rpc_def rollback_def ex_after_wheel_def get_sslot_def)

lemma ex_retransmit_kick:
  "pkt_loss_retransmit_st (ex_externs False False) (0, 0)
     (ex_machine kClient kConnected 3 1) = Inr ex_after_kick"
  by (simp add: pkt_loss_retransmit_st_def ex_get_sslot ex_slot_def ex_session_def
        ex_externs_def ex_hand_def ex_do_tx_burst_st_def ex_tx_flush_def Let_def reinject_def drain_tx_def invoke_def log_reorder_def
        get_session_def set_session_def rollback_st_def ex_kick_def
        ex_machine_def ex_rpc_def rollback_def ex_after_kick_def ex_req_pkts_pending_def
        get_sslot_def)

lemma ex_delta: "num_tx (client_info (ex_slot 3 1)) \<noteq> num_rx (client_info (ex_slot 3 1))"
  by (simp add: ex_slot_def)

text \<open>
  The helper functions of the concrete endpoint leave the credit counters alone, and its
  kick keeps the credit invariant.
\<close>

lemma ex_frames:
  "keeps_counters (do_tx_burst_st (ex_externs a b)) i"
  "keeps_counters (tx_flush (ex_externs a b)) i"
  "keeps_counters (enqueue_wheel_st (ex_externs a b) p sz) i"
  by (simp_all add: ex_externs_def ex_hand_def ex_do_tx_burst_st_def ex_tx_flush_def keeps_counters_def counters_def get_session_def)

lemma uint_pred: "c \<noteq> 0 \<Longrightarrow> uint (c - 1) = uint c - 1" for c :: size_t
proof -
  assume "c \<noteq> 0"
  then have "unat (c - 1) = unat c - 1" and "0 < unat c"
    by (simp_all add: unat_minus_one unat_gt_0)
  then have "int (unat (c - 1)) = int (unat c) - 1"
    by linarith
  then show ?thesis
    by simp
qed

lemma uint_succ: "tx \<noteq> - 1 \<Longrightarrow> uint (tx + 1) = uint tx + 1" for tx :: size_t
proof -
  assume "tx \<noteq> - 1"
  then have "1 + tx \<noteq> 0"
    using max_word_wrap [of tx] by (auto simp: add.commute)
  from unatSuc [OF this] have "int (unat (tx + 1)) = int (unat tx) + 1"
    by (simp only: add.commute [of 1 tx] of_nat_Suc)
  then show ?thesis
    by simp
qed

lemma ex_kick_keeps_invariant: "keeps_invariant env p (ex_kick p)"
proof -
  have "credit_invariant env p (ex_kick p r)" if inv: "credit_invariant env p r" for r
  proof (cases "get_sslot r p")
    case None
    then show ?thesis using inv by (simp add: ex_kick_def)
  next
    case (Some a)
    obtain s sl where a: "a = (s, sl)" by (cases a)
    note g = Some [unfolded a]
    show ?thesis
    proof (cases "credits (session_client_info s) = 0 \<or> num_tx (client_info sl) = - 1")
      case True
      then show ?thesis using inv g by (simp add: ex_kick_def)
    next
      case False
      then show ?thesis
        using inv g get_sslotD [OF g]
        by (simp add: ex_kick_def credit_invariant_def get_sslot_def
              get_session_set_session uint_pred uint_succ)
    qed
  qed
  then show ?thesis
    by (simp add: keeps_invariant_def)
qed

lemma ex_invariant:
  "credit_invariant (ex_externs a b) (0, 0) (rpc (ex_machine kClient kConnected 3 1))"
  by (simp add: credit_invariant_def ex_get_sslot)
     (simp add: ex_session_def ex_slot_def ex_externs_def ex_hand_def ex_do_tx_burst_st_def ex_tx_flush_def)

section \<open>Facts about the endpoint with several sessions\<close>

text \<open>
  The helpers of the concrete endpoint keep the frame conditions and the contract of the
  transport, and the scan of the endpoint with five entries returns the machine described
  above.
\<close>

lemma ex_kick_cases:
  obtains (same) "ex_kick q r = r"
    | (sent) s sl where "get_sslot r q = Some (s, sl)"
      and "ex_kick q r =
             set_session (fst q)
               (s\<lparr>session_client_info :=
                    (session_client_info s)\<lparr>credits :=
                       credits (session_client_info s) - 1\<rparr>,
                  sslot_arr :=
                    (sslot_arr s)[snd q := sl\<lparr>client_info :=
                       (client_info sl)\<lparr>num_tx := num_tx (client_info sl) + 1\<rparr>\<rparr>]\<rparr>) r"
proof (cases "get_sslot r q")
  case None
  then have "ex_kick q r = r" by (simp add: ex_kick_def)
  then show ?thesis by (rule same)
next
  case (Some a)
  obtain s sl where a: "a = (s, sl)" by (cases a)
  note g = Some [unfolded a]
  show ?thesis
  proof (cases "credits (session_client_info s) = 0 \<or> num_tx (client_info sl) = - 1")
    case True
    then have "ex_kick q r = r" using g by (simp add: ex_kick_def)
    then show ?thesis by (rule same)
  next
    case False
    then have "ex_kick q r =
             set_session (fst q)
               (s\<lparr>session_client_info :=
                    (session_client_info s)\<lparr>credits :=
                       credits (session_client_info s) - 1\<rparr>,
                  sslot_arr :=
                    (sslot_arr s)[snd q := sl\<lparr>client_info :=
                       (client_info sl)\<lparr>num_tx := num_tx (client_info sl) + 1\<rparr>\<rparr>]\<rparr>) r"
      using g by (simp add: ex_kick_def)
    with g show ?thesis by (rule sent)
  qed
qed

lemma ex_kick_entry_view: "fst q \<noteq> i \<Longrightarrow> entry_view (ex_kick q r) i = entry_view r i"
  by (cases q r rule: ex_kick_cases) (simp_all add: entry_view_set_session)


lemma ex_view_simps:
  "entry_view (ex_hand r) i = entry_view r i"
  "entry_view (ex_do_tx_burst_st r) i = entry_view r i"
  "entry_view (ex_tx_flush r) i = entry_view r i"
  "slot_view (ex_hand r) p = slot_view r p"
  "slot_view (ex_do_tx_burst_st r) p = slot_view r p"
  "slot_view (ex_tx_flush r) p = slot_view r p"
  by (simp_all add: entry_view_def slot_view_def get_sslot_def get_session_def
        ex_hand_def ex_do_tx_burst_st_def ex_tx_flush_def)

lemma ex_others_keep_entry: "others_keep_entry (ex_externs a b) i"
  by (simp add: others_keep_entry_def ex_externs_def ex_view_simps ex_kick_entry_view)


lemma ex_mixed_scan:
  "pkt_loss_scan_st (ex_externs True False) ex_mixed_machine = Inr ex_mixed_after"
  by (simp add: pkt_loss_scan_st_def scan_session_def scan_sslot_def is_server_def
        pkt_loss_retransmit_st_def Let_def reinject_def drain_tx_def invoke_def
        log_reorder_def funpow_two sub_credits_def get_session_def set_session_def
        rollback_st_def rollback_def get_sslot_def sm_pkt_loss_def
        ex_mixed_machine_def ex_mixed_after_def ex_session_def ex_slot_def ex_free_slot_def
        ex_externs_def ex_hand_def ex_do_tx_burst_st_def ex_tx_flush_def)

lemma ex_mixed_calls:
  "scan_calls ex_mixed_machine ex_mixed_after =
     [Log_retransmitting (0, 0) True, Do_tx_burst_st, Tx_flush,
      Enqueue_wheel_st (0, 0) 1024, Enqueue_wheel_st (0, 0) 1024, Send_sm_req_st 1]"
  by (simp add: scan_calls_def ex_mixed_machine_def ex_mixed_after_def)

lemma ex_mixed_session_vec:
  "session_vec (rpc ex_mixed_machine) =
     [Some (ex_session kClient kConnected 3 1),
      Some (ex_session kClient kConnectInProgress 0 0),
      Some (ex_session kClient kResetInProgress 3 1),
      None,
      Some (ex_session kServer kConnected 3 1)]"
  by (simp add: ex_mixed_machine_def)



section \<open>The false-positive case\<close>

text \<open>
  Claim C4. When \<open>pkt_loss_retransmit_st\<close> is called on a slot with
  \<open>num_tx = num_rx\<close>, it only writes the "False positive" log line: the whole
  \<open>Rpc\<close> object (credits, \<open>num_tx\<close>, \<open>num_rx\<close>, \<open>progress_tsc\<close>, the
  retransmission counter, the wheel and the TX batch) is as before, and neither
  \<open>do_tx_burst_st\<close> nor \<open>tx_flush\<close> is called. This is so whenever the three
  assertions at the top of the function hold; otherwise the call aborts.
\<close>

theorem false_positive:
  assumes "get_sslot (rpc m) p = Some (s, sl)"
    and "num_tx (client_info sl) = num_rx (client_info sl)"
  shows "pkt_loss_retransmit_st env p m =
           (if in_dispatch env \<and> tx_msgbuf sl \<noteq> None
               \<and> credits (session_client_info s) \<le> kSessionCredits env
            then Inr (m\<lparr>calls := calls m @ [Log_false_positive p]\<rparr>)
            else Inl Assertion_failed)"
  using assms by (auto simp: pkt_loss_retransmit_st_def log_reorder_def split: option.splits)

theorem false_positive_witness:
  "pkt_loss_retransmit_st (ex_externs True False) (0, 0) (ex_machine kClient kConnected 3 3) =
     Inr ((ex_machine kClient kConnected 3 3)\<lparr>calls := [Log_false_positive (0, 0)]\<rparr>)"
  using false_positive [where env = "ex_externs True False"
      and m = "ex_machine kClient kConnected 3 3" and p = "(0, 0)", OF ex_get_sslot]
  by (simp add: ex_slot_def ex_session_def ex_externs_def ex_hand_def ex_do_tx_burst_st_def ex_tx_flush_def ex_machine_def)

section \<open>The roll-back\<close>

text \<open>
  Claim C2. When \<open>pkt_loss_retransmit_st\<close> runs on a slot with
  \<open>delta = num_tx - num_rx\<close> different from 0 (and its assertions hold), the state
  that it hands on to the draining of the TX batch and to the re-injection is the
  rolled-back one: the session's credit counter is the old one plus \<open>delta\<close>,
  \<open>num_tx\<close> equals \<open>num_rx\<close>, which is unchanged, \<open>progress_tsc\<close> is the
  current \<open>ev_loop_tsc\<close>, and the session's retransmission counter is the old one
  plus one.
\<close>

theorem rollback_effect:
  assumes "in_dispatch env" and "get_sslot (rpc m) p = Some (s, sl)"
    and "tx_msgbuf sl = Some mb"
    and "credits (session_client_info s)
           + (num_tx (client_info sl) - num_rx (client_info sl)) \<le> kSessionCredits env"
    and "num_tx (client_info sl) \<noteq> num_rx (client_info sl)"
    and "p \<notin> set (stallq (rpc m))"
  shows "\<exists>mid s' sl'.
           mid = rollback_st p s (num_tx (client_info sl) - num_rx (client_info sl))
                   (log_reorder
                      (Log_retransmitting p (num_rx (client_info sl) < num_pkts mb)) m)
         \<and> pkt_loss_retransmit_st env p m =
             reinject env p (num_tx (client_info sl) - num_rx (client_info sl))
               (drain_tx env mid)
         \<and> get_sslot (rpc mid) p = Some (s', sl')
         \<and> credits (session_client_info s') =
             credits (session_client_info s)
               + (num_tx (client_info sl) - num_rx (client_info sl))
         \<and> num_tx (client_info sl') = num_rx (client_info sl)
         \<and> num_rx (client_info sl') = num_rx (client_info sl)
         \<and> progress_tsc (client_info sl') = ev_loop_tsc (rpc m)
         \<and> cc_num_retransmissions (session_client_info s') =
             cc_num_retransmissions (session_client_info s) + 1"
proof -
  let ?d = "num_tx (client_info sl) - num_rx (client_info sl)"
  let ?m1 = "log_reorder (Log_retransmitting p (num_rx (client_info sl) < num_pkts mb)) m"
  have g: "get_sslot (rpc ?m1) p = Some (s, sl)"
    using assms(2) by simp
  show ?thesis
    using retransmit_unfold [OF assms] get_sslot_rollback_st [OF g, of ?d]
    by (simp add: rollback_session_client_info)
qed

theorem rollback_effect_witness:
  "\<exists>s' sl'.
      get_sslot
        (rpc (rollback_st (0, 0) (ex_session kClient kConnected 3 1) 2
                (log_reorder (Log_retransmitting (0, 0) True)
                   (ex_machine kClient kConnected 3 1)))) (0, 0) = Some (s', sl')
    \<and> credits (session_client_info s') = 8
    \<and> num_tx (client_info sl') = 1 \<and> num_rx (client_info sl') = 1
    \<and> progress_tsc (client_info sl') = 10000000
    \<and> cc_num_retransmissions (session_client_info s') = 1"
proof -
  have a: "in_dispatch (ex_externs True False)"
    by (simp add: ex_externs_def ex_hand_def ex_do_tx_burst_st_def ex_tx_flush_def)
  have b: "tx_msgbuf (ex_slot 3 1) = Some \<lparr>req_num = 8, num_pkts = 4\<rparr>"
    by (simp add: ex_slot_def)
  have c: "credits (session_client_info (ex_session kClient kConnected 3 1))
             + (num_tx (client_info (ex_slot 3 1)) - num_rx (client_info (ex_slot 3 1)))
           \<le> kSessionCredits (ex_externs True False)"
    by (simp add: ex_session_def ex_slot_def ex_externs_def ex_hand_def ex_do_tx_burst_st_def ex_tx_flush_def)
  have d: "num_tx (client_info (ex_slot 3 1)) \<noteq> num_rx (client_info (ex_slot 3 1))"
    by (simp add: ex_slot_def)
  show ?thesis
    using rollback_effect [OF a ex_get_sslot b c d ex_stallq]
    by (simp add: ex_slot_def ex_session_def ex_machine_def ex_rpc_def)
qed

section \<open>Draining before re-injection\<close>



section \<open>Where the rolled-back packets go\<close>

text \<open>
  Claim C5, as the code has it. On a retransmission with \<open>delta\<close> different from 0
  that returns, the calls made after \<open>tx_flush\<close> are: \<open>delta\<close> calls of
  \<open>enqueue_wheel_st\<close> on the slot with \<open>kMTU\<close> when \<open>kCcPacing\<close> holds, or when
  \<open>kTesting\<close> holds and \<open>faults.hard_wheel_bypass\<close> is not set; otherwise a single
  call, of \<open>kick_req_st\<close> when \<open>req_pkts_pending(sslot)\<close> holds and of
  \<open>kick_rfr_st\<close> when it does not, and the \<open>Rpc\<close> object is what that call makes of
  the rolled-back and drained one.
\<close>

theorem reinjection_choice:
  assumes "pkt_loss_retransmit_st env p m = Inr m'"
    and "get_sslot (rpc m) p = Some (s, sl)"
    and "tx_msgbuf sl = Some mb"
    and "num_tx (client_info sl) \<noteq> num_rx (client_info sl)"
  shows "\<exists>delta mid.
           delta = num_tx (client_info sl) - num_rx (client_info sl)
         \<and> mid = drain_tx env (rollback_st p s delta
                   (log_reorder
                      (Log_retransmitting p (num_rx (client_info sl) < num_pkts mb)) m))
         \<and> calls m' = calls mid @
             (if kCcPacing env \<or> (kTesting env \<and> \<not> faults_hard_wheel_bypass (rpc mid))
              then replicate (unat delta) (Enqueue_wheel_st p (kMTU env))
              else if req_pkts_pending env p (rpc mid) then [Kick_req_st p]
              else [Kick_rfr_st p])
         \<and> (\<not> (kCcPacing env \<or> (kTesting env \<and> \<not> faults_hard_wheel_bypass (rpc mid)))
              \<longrightarrow> rpc m' = (if req_pkts_pending env p (rpc mid)
                             then kick_req_st env p (rpc mid)
                             else kick_rfr_st env p (rpc mid)))"
proof -
  let ?d = "num_tx (client_info sl) - num_rx (client_info sl)"
  let ?mid = "drain_tx env (rollback_st p s ?d
                (log_reorder (Log_retransmitting p (num_rx (client_info sl) < num_pkts mb)) m))"
  have "pkt_loss_retransmit_st env p m = reinject env p ?d ?mid"
    using retransmit_unfold [OF retransmit_InrD(1) [OF assms(1,2)] assms(2,3)
        retransmit_InrD(3) [OF assms(1,2)] assms(4) retransmit_InrD(4) [OF assms(1,2) assms(4)]] .
  then have r: "reinject env p ?d ?mid = Inr m'"
    using assms(1) by simp
  show ?thesis
    using reinject_calls [OF r] reinject_rpc_kick [OF r]
    by (simp add: wheel_path_def)
qed

theorem reinjection_choice_witness:
  "\<exists>delta mid.
      delta = num_tx (client_info (ex_slot 3 1)) - num_rx (client_info (ex_slot 3 1))
    \<and> mid = drain_tx (ex_externs False False)
              (rollback_st (0, 0) (ex_session kClient kConnected 3 1) delta
                 (log_reorder (Log_retransmitting (0, 0) True)
                    (ex_machine kClient kConnected 3 1)))
    \<and> calls ex_after_kick = calls mid @ [Kick_req_st (0, 0)]
    \<and> rpc ex_after_kick = ex_kick (0, 0) (rpc mid)"
proof -
  have b: "tx_msgbuf (ex_slot 3 1) = Some \<lparr>req_num = 8, num_pkts = 4\<rparr>"
    by (simp add: ex_slot_def)
  have p: "req_pkts_pending (ex_externs False False) (0, 0)
             (rpc (drain_tx (ex_externs False False)
                (rollback_st (0, 0) (ex_session kClient kConnected 3 1) 2
                 (log_reorder (Log_retransmitting (0, 0) True)
                    (ex_machine kClient kConnected 3 1)))))"
    by (simp add: ex_externs_def ex_hand_def ex_do_tx_burst_st_def ex_tx_flush_def drain_tx_rpc rollback_st_def set_session_def
          ex_machine_def ex_rpc_def ex_req_pkts_pending_def get_sslot_def get_session_def
          rollback_def ex_session_def ex_slot_def)
  show ?thesis
    using reinjection_choice [OF ex_retransmit_kick ex_get_sslot b ex_delta] p
    by (simp add: ex_slot_def ex_externs_def ex_hand_def ex_do_tx_burst_st_def ex_tx_flush_def)
qed

text \<open>
  Claim C5 as it was stated fails: with CC pacing disabled, in a testing build without the
  hard wheel bypass, the two rolled-back packets go to the wheel and nothing is kicked.
\<close>

theorem reinjection_pacing_off_counterexample:
  "\<not> kCcPacing (ex_externs False True)
   \<and> pkt_loss_retransmit_st (ex_externs False True) (0, 0)
       (ex_machine kClient kConnected 3 1) = Inr ex_after_wheel
   \<and> calls ex_after_wheel =
       [Log_retransmitting (0, 0) True, Do_tx_burst_st, Tx_flush,
        Enqueue_wheel_st (0, 0) 1024, Enqueue_wheel_st (0, 0) 1024]"
  by (simp add: ex_retransmit_wheel) (simp add: ex_externs_def ex_hand_def ex_do_tx_burst_st_def ex_tx_flush_def ex_after_wheel_def)

section \<open>The credit invariant\<close>

text \<open>
  Claim C1. Let the credit invariant \<open>credits + (num_tx - num_rx) \<le> kSessionCredits\<close>
  hold for the slot on entry to \<open>pkt_loss_retransmit_st\<close>, with
  \<open>num_rx \<le> num_tx\<close> (the cases \<open>delta = 0\<close> and \<open>delta > 0\<close>), and let the
  assertions on the dispatch thread, on \<open>tx_msgbuf\<close> and on the stall queue hold. Then
  the function returns, its own assertion of the invariant having passed, and the
  invariant holds for the slot afterwards: after the false positive, after the roll-back
  followed by the re-injection into the wheel, and after the roll-back followed by a kick.
  The functions defined outside the file are assumed to do what the code relies on:
  \<open>do_tx_burst_st\<close>, \<open>tx_flush\<close> and \<open>enqueue_wheel_st\<close> do not touch the
  session's credit counters, and \<open>kick_req_st\<close> and \<open>kick_rfr_st\<close> keep the
  invariant.
\<close>

theorem credit_invariant_preserved:
  assumes "in_dispatch env"
    and "get_sslot (rpc m) p = Some (s, sl)"
    and "tx_msgbuf sl = Some mb"
    and "p \<notin> set (stallq (rpc m))"
    and "num_rx (client_info sl) \<le> num_tx (client_info sl)"
    and "credit_invariant env p (rpc m)"
    and "keeps_counters (do_tx_burst_st env) (fst p)"
    and "keeps_counters (tx_flush env) (fst p)"
    and "keeps_counters (enqueue_wheel_st env p (kMTU env)) (fst p)"
    and "keeps_invariant env p (kick_req_st env p)"
    and "keeps_invariant env p (kick_rfr_st env p)"
  shows "\<exists>m'. pkt_loss_retransmit_st env p m = Inr m' \<and> credit_invariant env p (rpc m')"
proof -
  let ?c = "credits (session_client_info s)"
  let ?tx = "num_tx (client_info sl)"
  let ?rx = "num_rx (client_info sl)"
  let ?d = "?tx - ?rx"
  let ?l = "map (\<lambda>sl. (num_tx (client_info sl), num_rx (client_info sl))) (sslot_arr s)"
  have inv: "uint ?c + (uint ?tx - uint ?rx) \<le> uint (kSessionCredits env)"
    using assms(2,6) by (simp add: credit_invariant_def)
  note nw = invariant_no_wrap [OF assms(5) inv]
  have j: "snd p < length ?l"
    using get_sslotD(4) [OF assms(2)] by simp
  show ?thesis
  proof (cases "?tx = ?rx")
    case True
    then show ?thesis
      using assms(1,2,3,6) nw(2)
      by (simp add: pkt_loss_retransmit_st_def)
  next
    case False
    let ?mid = "drain_tx env (rollback_st p s ?d
                  (log_reorder (Log_retransmitting p (?rx < num_pkts mb)) m))"
    have u: "pkt_loss_retransmit_st env p m = reinject env p ?d ?mid"
      using retransmit_unfold [OF assms(1,2,3) nw(2) False assms(4)] .
    have c: "counters (rpc ?mid) (fst p) = Some (?c + ?d, ?l[snd p := (?rx, ?rx)])"
      using counters_mid [OF assms(2,7,8)] by (simp add: rpc_drain_rollback_log)
    show ?thesis
    proof (cases "wheel_path env (rpc ?mid)")
      case True
      from reinject_wheel_counters [OF True c assms(9), of ?d] obtain m'
        where m': "reinject env p ?d ?mid = Inr m'"
          and c': "counters (rpc m') (fst p) = Some (?c + ?d - ?d, ?l[snd p := (?rx, ?rx)])"
        by blast
      have "credit_invariant env p (rpc m')"
        using c' j nw(3) by (simp add: credit_invariant_counters)
      then show ?thesis
        using u m' by simp
    next
      case False
      have mid: "credit_invariant env p (rpc ?mid)"
        using c j nw(1) inv by (simp add: credit_invariant_counters)
      from reinject_kick [OF False, of p ?d] obtain m'
        where m': "reinject env p ?d ?mid = Inr m'"
          and k: "rpc m' = (if req_pkts_pending env p (rpc ?mid)
                            then kick_req_st env p (rpc ?mid)
                            else kick_rfr_st env p (rpc ?mid))"
        by blast
      have "credit_invariant env p (rpc m')"
        using k mid assms(10,11) by (simp add: keeps_invariant_def)
      then show ?thesis
        using u m' by simp
    qed
  qed
qed

theorem credit_invariant_preserved_witness:
  "credit_invariant (ex_externs False False) (0, 0) (rpc (ex_machine kClient kConnected 3 1))
   \<and> pkt_loss_retransmit_st (ex_externs False False) (0, 0)
        (ex_machine kClient kConnected 3 1) = Inr ex_after_kick
   \<and> credit_invariant (ex_externs False False) (0, 0) (rpc ex_after_kick)"
proof -
  have a: "in_dispatch (ex_externs False False)"
    by (simp add: ex_externs_def ex_hand_def ex_do_tx_burst_st_def ex_tx_flush_def)
  have b: "tx_msgbuf (ex_slot 3 1) = Some \<lparr>req_num = 8, num_pkts = 4\<rparr>"
    by (simp add: ex_slot_def)
  have c: "num_rx (client_info (ex_slot 3 1)) \<le> num_tx (client_info (ex_slot 3 1))"
    by (simp add: ex_slot_def)
  have k: "keeps_invariant (ex_externs False False) (0, 0)
             (kick_req_st (ex_externs False False) (0, 0))"
      "keeps_invariant (ex_externs False False) (0, 0)
             (kick_rfr_st (ex_externs False False) (0, 0))"
    using ex_kick_keeps_invariant [of "ex_externs False False" "(0, 0)"]
    by (simp_all add: ex_externs_def ex_hand_def ex_do_tx_burst_st_def ex_tx_flush_def)
  show ?thesis
    using credit_invariant_preserved [OF a ex_get_sslot b ex_stallq c ex_invariant ex_frames k]
      ex_invariant [of False False]
    by (simp add: ex_retransmit_kick)
qed

section \<open>The credit invariant over all slots of a session\<close>

text \<open>
  The invariant in its aggregate form is kept as well: rolling a slot back takes its
  packets in flight out of the sum and gives their credits back, the wheel path then
  consumes these credits again, and a kick is assumed to keep the aggregate invariant.
\<close>

lemma in_flight_update:
  "j < length l \<Longrightarrow>
     in_flight (l[j := q]) =
       in_flight l - (uint (fst (l ! j)) - uint (snd (l ! j))) + (uint (fst q) - uint (snd q))"
  unfolding in_flight_def
proof (induction l arbitrary: j)
  case Nil
  then show ?case by simp
next
  case (Cons a l)
  then show ?case by (cases j) simp_all
qed

lemma in_flight_nonneg: "\<forall>q \<in> set l. snd q \<le> fst q \<Longrightarrow> 0 \<le> in_flight l"
  unfolding in_flight_def
  by (induction l) (simp_all add: word_le_def)

lemma rolled_back_slots:
  assumes "\<forall>q \<in> set l. snd q \<le> fst q" and "j < length l"
  shows "\<forall>q \<in> set (l[j := (snd (l ! j), snd (l ! j))]). snd q \<le> fst q"
    and "in_flight (l[j := (snd (l ! j), snd (l ! j))]) =
           in_flight l - (uint (fst (l ! j)) - uint (snd (l ! j)))"
    and "0 \<le> in_flight (l[j := (snd (l ! j), snd (l ! j))])"
proof -
  show a: "\<forall>q \<in> set (l[j := (snd (l ! j), snd (l ! j))]). snd q \<le> fst q"
    using assms(1) set_update_subset_insert [of l j "(snd (l ! j), snd (l ! j))"] by auto
  show "in_flight (l[j := (snd (l ! j), snd (l ! j))]) =
           in_flight l - (uint (fst (l ! j)) - uint (snd (l ! j)))"
    using in_flight_update [OF assms(2)] by simp
  show "0 \<le> in_flight (l[j := (snd (l ! j), snd (l ! j))])"
    using in_flight_nonneg [OF a] .
qed

lemma session_credit_invariant_preserved:
  assumes "in_dispatch env"
    and "get_sslot (rpc m) p = Some (s, sl)"
    and "tx_msgbuf sl = Some mb"
    and "p \<notin> set (stallq (rpc m))"
    and "session_credit_invariant env (fst p) (rpc m)"
    and "keeps_counters (do_tx_burst_st env) (fst p)"
    and "keeps_counters (tx_flush env) (fst p)"
    and "keeps_counters (enqueue_wheel_st env p (kMTU env)) (fst p)"
    and "\<forall>r. session_credit_invariant env (fst p) r
           \<longrightarrow> session_credit_invariant env (fst p) (kick_req_st env p r)"
    and "\<forall>r. session_credit_invariant env (fst p) r
           \<longrightarrow> session_credit_invariant env (fst p) (kick_rfr_st env p r)"
  shows "\<exists>m'. pkt_loss_retransmit_st env p m = Inr m'
            \<and> session_credit_invariant env (fst p) (rpc m')"
proof -
  let ?c = "credits (session_client_info s)"
  let ?tx = "num_tx (client_info sl)"
  let ?rx = "num_rx (client_info sl)"
  let ?d = "?tx - ?rx"
  let ?l = "map (\<lambda>sl. (num_tx (client_info sl), num_rx (client_info sl))) (sslot_arr s)"
  let ?l' = "?l[snd p := (?rx, ?rx)]"
  note g = get_sslotD [OF assms(2)]
  have cnt: "counters (rpc m) (fst p) = Some (?c, ?l)"
    using g(3) by (simp add: counters_def)
  have j: "snd p < length ?l" and lj: "?l ! snd p = (?tx, ?rx)"
    using g(4,5) by simp_all
  have ok: "\<forall>q \<in> set ?l. snd q \<le> fst q" and inv: "uint ?c + in_flight ?l \<le> uint (kSessionCredits env)"
    using assms(5) cnt by (simp_all add: session_credit_invariant_def)
  have le: "?rx \<le> ?tx"
    using ok g(4,5) by simp
  note rb = rolled_back_slots [OF ok j, unfolded lj, simplified]
  have slot: "uint ?c + (uint ?tx - uint ?rx) \<le> uint (kSessionCredits env)"
    using inv rb(2,3) by linarith
  note nw = invariant_no_wrap [OF le slot]
  show ?thesis
  proof (cases "?tx = ?rx")
    case True
    then show ?thesis
      using assms(1,2,3,5) nw(2) by (simp add: pkt_loss_retransmit_st_def)
  next
    case False
    let ?mid = "drain_tx env (rollback_st p s ?d
                  (log_reorder (Log_retransmitting p (?rx < num_pkts mb)) m))"
    have u: "pkt_loss_retransmit_st env p m = reinject env p ?d ?mid"
      using retransmit_unfold [OF assms(1,2,3) nw(2) False assms(4)] .
    have c: "counters (rpc ?mid) (fst p) = Some (?c + ?d, ?l')"
      using counters_mid [OF assms(2,6,7)] by (simp add: rpc_drain_rollback_log)
    show ?thesis
    proof (cases "wheel_path env (rpc ?mid)")
      case True
      from reinject_wheel_counters [OF True c assms(8), of ?d] obtain m'
        where m': "reinject env p ?d ?mid = Inr m'"
          and c': "counters (rpc m') (fst p) = Some (?c + ?d - ?d, ?l')"
        by blast
      have "session_credit_invariant env (fst p) (rpc m')"
        using c' rb inv le by (simp add: session_credit_invariant_def word_le_def)
      then show ?thesis
        using u m' by simp
    next
      case False
      have mid: "session_credit_invariant env (fst p) (rpc ?mid)"
        using c rb inv nw(1) by (simp add: session_credit_invariant_def)
      from reinject_kick [OF False, of p ?d] obtain m'
        where m': "reinject env p ?d ?mid = Inr m'"
          and k: "rpc m' = (if req_pkts_pending env p (rpc ?mid)
                            then kick_req_st env p (rpc ?mid)
                            else kick_rfr_st env p (rpc ?mid))"
        by blast
      have "session_credit_invariant env (fst p) (rpc m')"
        using k mid assms(9,10) by simp
      then show ?thesis
        using u m' by simp
    qed
  qed
qed

lemma ex_kick_counters:
  "counters (ex_kick p r) (fst p) =
     (case counters r (fst p) of
        None \<Rightarrow> None
      | Some (c, l) \<Rightarrow>
          if snd p < length l \<and> c \<noteq> 0 \<and> fst (l ! snd p) \<noteq> - 1
          then Some (c - 1, l[snd p := (fst (l ! snd p) + 1, snd (l ! snd p))])
          else Some (c, l))"
proof (cases "get_sslot r p")
  case None
  then show ?thesis
    by (auto simp: ex_kick_def counters_def get_sslot_def split: option.splits if_splits)
next
  case (Some a)
  obtain s sl where a: "a = (s, sl)" by (cases a)
  note g = Some [unfolded a]
  note d = get_sslotD [OF g]
  show ?thesis
  proof (cases "credits (session_client_info s) = 0 \<or> num_tx (client_info sl) = - 1")
    case True
    then show ?thesis
      using g d by (auto simp: ex_kick_def counters_def)
  next
    case False
    then show ?thesis
      using g d
      by (simp add: ex_kick_def counters_def get_session_set_session map_update)
  qed
qed

lemma ex_kick_keeps_session_invariant:
  assumes "session_credit_invariant env (fst p) r"
  shows "session_credit_invariant env (fst p) (ex_kick p r)"
proof -
  from assms obtain c l where cl: "counters r (fst p) = Some (c, l)"
    and ok: "\<forall>q \<in> set l. snd q \<le> fst q"
    and inv: "uint c + in_flight l \<le> uint (kSessionCredits env)"
    by (auto simp: session_credit_invariant_def split: option.splits)
  show ?thesis
  proof (cases "snd p < length l \<and> c \<noteq> 0 \<and> fst (l ! snd p) \<noteq> - 1")
    case False
    then show ?thesis
      using assms cl by (auto simp: session_credit_invariant_def ex_kick_counters)
  next
    case True
    let ?q = "(fst (l ! snd p) + 1, snd (l ! snd p))"
    have le: "snd (l ! snd p) \<le> fst (l ! snd p)"
      using ok True by simp
    have q: "snd ?q \<le> fst ?q"
      using le True by (simp add: word_le_def uint_succ)
    have "\<forall>q \<in> set (l[snd p := ?q]). snd q \<le> fst q"
      using ok q set_update_subset_insert [of l "snd p" ?q] by auto
    moreover have "uint (c - 1) + in_flight (l[snd p := ?q]) = uint c + in_flight l"
      using True by (simp add: in_flight_update uint_pred uint_succ)
    ultimately show ?thesis
      using cl True inv by (simp add: session_credit_invariant_def ex_kick_counters)
  qed
qed

lemma session_credit_invariant_example:
  "\<exists>m'. pkt_loss_retransmit_st (ex_externs False False) (0, 0)
           (ex_machine kClient kConnected 3 1) = Inr m'
       \<and> session_credit_invariant (ex_externs False False) 0 (rpc m')"
proof -
  have a: "in_dispatch (ex_externs False False)"
    by (simp add: ex_externs_def ex_hand_def ex_do_tx_burst_st_def ex_tx_flush_def)
  have b: "tx_msgbuf (ex_slot 3 1) = Some \<lparr>req_num = 8, num_pkts = 4\<rparr>"
    by (simp add: ex_slot_def)
  have c: "session_credit_invariant (ex_externs False False) (fst (0, 0))
             (rpc (ex_machine kClient kConnected 3 1))"
    by (simp add: session_credit_invariant_def counters_def get_session_def in_flight_def
          ex_machine_def ex_rpc_def ex_session_def ex_slot_def ex_free_slot_def ex_externs_def ex_hand_def ex_do_tx_burst_st_def ex_tx_flush_def)
  have k: "\<forall>r. session_credit_invariant (ex_externs False False) (fst (0, 0)) r
             \<longrightarrow> session_credit_invariant (ex_externs False False) (fst (0, 0))
                   (kick_req_st (ex_externs False False) (0, 0) r)"
    "\<forall>r. session_credit_invariant (ex_externs False False) (fst (0, 0)) r
             \<longrightarrow> session_credit_invariant (ex_externs False False) (fst (0, 0))
                   (kick_rfr_st (ex_externs False False) (0, 0) r)"
    using ex_kick_keeps_session_invariant [of "ex_externs False False" "(0, 0)"]
    by (simp_all add: ex_externs_def ex_hand_def ex_do_tx_burst_st_def ex_tx_flush_def)
  show ?thesis
    using session_credit_invariant_preserved [OF a ex_get_sslot b ex_stallq c ex_frames k]
    by simp
qed

section \<open>Credits on the wheel path\<close>

text \<open>
  Claim C9. When \<open>pkt_loss_retransmit_st\<close> rolls back (\<open>delta\<close> different from 0),
  takes the wheel path and returns, the session's credit counter is the same after the
  call as before: \<open>credits += delta\<close> is undone by \<open>credits -= delta\<close> after the
  \<open>delta\<close> calls of \<open>enqueue_wheel_st\<close>. The functions called in between
  (\<open>do_tx_burst_st\<close>, \<open>tx_flush\<close>, \<open>enqueue_wheel_st\<close>) are assumed not to touch
  the session's credit counters.
\<close>

theorem wheel_path_credits_unchanged:
  assumes "pkt_loss_retransmit_st env p m = Inr m'"
    and "get_sslot (rpc m) p = Some (s, sl)"
    and "num_tx (client_info sl) \<noteq> num_rx (client_info sl)"
    and "wheel_path env
           (rpc (drain_tx env
              (rollback_st p s (num_tx (client_info sl) - num_rx (client_info sl)) m)))"
    and "keeps_counters (do_tx_burst_st env) (fst p)"
    and "keeps_counters (tx_flush env) (fst p)"
    and "keeps_counters (enqueue_wheel_st env p (kMTU env)) (fst p)"
  shows "\<exists>s'. get_session (rpc m') (fst p) = Some s'
            \<and> credits (session_client_info s') = credits (session_client_info s)"
proof -
  let ?d = "num_tx (client_info sl) - num_rx (client_info sl)"
  from retransmit_InrD(2) [OF assms(1,2)] obtain mb where mb: "tx_msgbuf sl = Some mb" ..
  let ?mid = "drain_tx env (rollback_st p s ?d
                (log_reorder (Log_retransmitting p (num_rx (client_info sl) < num_pkts mb)) m))"
  have "pkt_loss_retransmit_st env p m = reinject env p ?d ?mid"
    using retransmit_unfold [OF retransmit_InrD(1) [OF assms(1,2)] assms(2) mb
        retransmit_InrD(3) [OF assms(1,2)] assms(3) retransmit_InrD(4) [OF assms(1,2) assms(3)]] .
  then have r: "reinject env p ?d ?mid = Inr m'"
    using assms(1) by simp
  have w: "wheel_path env (rpc ?mid)"
    using assms(4) by (simp add: rpc_drain_rollback_log)
  have c: "counters (rpc ?mid) (fst p) =
             Some (credits (session_client_info s) + ?d,
                   (map (\<lambda>sl. (num_tx (client_info sl), num_rx (client_info sl))) (sslot_arr s))
                     [snd p := (num_rx (client_info sl), num_rx (client_info sl))])"
    using counters_mid [OF assms(2,5,6)] by (simp add: rpc_drain_rollback_log)
  from reinject_wheel_counters [OF w c assms(7), of ?d] r
  have "counters (rpc m') (fst p) =
          Some (credits (session_client_info s) + ?d - ?d,
                (map (\<lambda>sl. (num_tx (client_info sl), num_rx (client_info sl))) (sslot_arr s))
                  [snd p := (num_rx (client_info sl), num_rx (client_info sl))])"
    by auto
  from countersD [OF this] show ?thesis
    by simp
qed

theorem wheel_path_credits_unchanged_witness:
  "\<exists>s'. get_session (rpc ex_after_wheel) 0 = Some s'
        \<and> credits (session_client_info s') = 6"
proof -
  have w: "wheel_path (ex_externs True False)
             (rpc (drain_tx (ex_externs True False)
                (rollback_st (0, 0) (ex_session kClient kConnected 3 1)
                   (num_tx (client_info (ex_slot 3 1)) - num_rx (client_info (ex_slot 3 1)))
                   (ex_machine kClient kConnected 3 1))))"
    by (simp add: wheel_path_def ex_externs_def ex_hand_def ex_do_tx_burst_st_def ex_tx_flush_def)
  have r: "pkt_loss_retransmit_st (ex_externs True False) (0, 0)
             (ex_machine kClient kConnected 3 1) = Inr ex_after_wheel"
    by (simp add: ex_retransmit_wheel)
  show ?thesis
    using wheel_path_credits_unchanged [OF r ex_get_sslot ex_delta w ex_frames]
    by (simp add: ex_session_def)
qed

section \<open>Datapath loss detection in the scan\<close>




section \<open>Session-management loss detection in the scan\<close>



section \<open>Sessions the scan passes over\<close>

text \<open>
  Claim C8. Let entry \<open>i\<close> of \<open>session_vec\<close> be, when \<open>pkt_loss_scan_st\<close> starts, null,
  a server session, or a session in ResetInProgress state, and let the helpers defined
  outside the sources, when called for another session, leave the role and the state of
  this entry alone (\<open>others_keep_entry\<close>). If the scan returns, then the visit to entry
  \<open>i\<close> has left the machine exactly as the scan of the entries before \<open>i\<close> had left it,
  and the scan has gone on from that state. Among the calls recorded by the whole scan,
  whatever the other entries are, none is about session \<open>i\<close>: no log line of
  \<open>pkt_loss_retransmit_st\<close>, no \<open>enqueue_wheel_st\<close>, \<open>kick_req_st\<close> or
  \<open>kick_rfr_st\<close> on one of its slots, and no \<open>send_sm_req_st\<close>.
\<close>

theorem scan_passes_over:
  assumes "pkt_loss_scan_st env m = Inr m'"
    and "i < length (session_vec (rpc m))"
    and "no_scan_work (session_vec (rpc m) ! i)"
    and "others_keep_entry env i"
  shows "(\<exists>a. scan_sessions env [0..<i] m = Inr a
            \<and> scan_session env i a = Inr a
            \<and> scan_sessions env [Suc i..<length (session_vec (rpc m))] a = Inr m')
       \<and> calls m' = calls m @ scan_calls m m'
       \<and> (\<forall>c \<in> set (scan_calls m m'). call_session c \<noteq> Some i)"
proof -
  from assms(1,2) obtain a b where a: "scan_sessions env [0..<i] m = Inr a"
    and b: "scan_session env i a = Inr b"
    and r: "scan_sessions env [Suc i..<length (session_vec (rpc m))] b = Inr m'"
    by (rule scan_split)
  have "entry_view (rpc a) i = entry_view (rpc m) i"
    using scan_prefix_keeps_entry [OF assms(4) _ a] by simp
  note e = entry_view_eqD(1,2) [OF this assms(2)]
  have "scan_session env i a = Inr a"
    using scan_session_no_work [OF e(1)] e(2) assms(3) by simp
  with b have "b = a" by simp
  note t = scan_calls_three [OF a b r]
  have "scan_calls a b = []"
    using \<open>b = a\<close> by simp
  then have "set (scan_calls m m') = set (scan_calls m a) \<union> set (scan_calls b m')"
    using t(2) by simp
  then have c: "\<forall>c \<in> set (scan_calls m m'). call_session c \<noteq> Some i"
    using t(3,4) by blast
  have "scan_sessions env [0..<i] m = Inr a
          \<and> scan_session env i a = Inr a
          \<and> scan_sessions env [Suc i..<length (session_vec (rpc m))] a = Inr m'"
    using a b r \<open>b = a\<close> by simp
  then have "\<exists>a. scan_sessions env [0..<i] m = Inr a
          \<and> scan_session env i a = Inr a
          \<and> scan_sessions env [Suc i..<length (session_vec (rpc m))] a = Inr m'"
    by (rule exI)
  then show ?thesis
    using t(1) c by (intro conjI)
qed

theorem scan_passes_over_witness:
  "calls ex_mixed_after = calls ex_mixed_machine @ scan_calls ex_mixed_machine ex_mixed_after
   \<and> [c \<leftarrow> scan_calls ex_mixed_machine ex_mixed_after. call_session c = Some 2] = []
   \<and> [c \<leftarrow> scan_calls ex_mixed_machine ex_mixed_after. call_session c = Some 3] = []
   \<and> [c \<leftarrow> scan_calls ex_mixed_machine ex_mixed_after. call_session c = Some 4] = []
   \<and> scan_calls ex_mixed_machine ex_mixed_after \<noteq> []"
proof -
  have i: "2 < length (session_vec (rpc ex_mixed_machine))"
    "3 < length (session_vec (rpc ex_mixed_machine))"
    "4 < length (session_vec (rpc ex_mixed_machine))"
    by (simp_all add: ex_mixed_session_vec)
  have n: "no_scan_work (session_vec (rpc ex_mixed_machine) ! 2)"
    "no_scan_work (session_vec (rpc ex_mixed_machine) ! 3)"
    "no_scan_work (session_vec (rpc ex_mixed_machine) ! 4)"
    by (simp_all add: ex_mixed_session_vec no_scan_work_def is_server_def ex_session_def)
  show ?thesis
    using scan_passes_over [OF ex_mixed_scan i(1) n(1) ex_others_keep_entry]
      scan_passes_over [OF ex_mixed_scan i(2) n(2) ex_others_keep_entry]
      scan_passes_over [OF ex_mixed_scan i(3) n(3) ex_others_keep_entry]
    by (simp add: filter_empty_conv) (simp add: ex_mixed_calls)
qed

section \<open>The result of UDPClient::send\<close>

text \<open>
  Claim C10. \<open>UDPClient::send\<close> returns -1 when the resolver yields no result and when
  \<open>send_to\<close> throws; otherwise it returns the number of bytes that \<open>send_to\<close>
  reports, cast to \<open>ssize_t\<close>, which is that number whenever it is below \<open>2^63\<close>.
  In every case the function returns a value: no exception leaves it.
\<close>

theorem send_returns:
  "(fst (resolve io h (to_string (unat port))) = []
      \<longrightarrow> snd (send io sz h port msg) = Inr (- 1))
   \<and> (\<forall>ep eps e. fst (resolve io h (to_string (unat port))) = ep # eps
          \<and> send_to io msg sz ep = Inl e
      \<longrightarrow> snd (send io sz h port msg) = Inr (- 1))
   \<and> (\<forall>ep eps n. fst (resolve io h (to_string (unat port))) = ep # eps
          \<and> send_to io msg sz ep = Inr n
      \<longrightarrow> snd (send io sz h port msg) = Inr (sint n)
          \<and> (uint n < 2 ^ 63 \<longrightarrow> snd (send io sz h port msg) = Inr (uint n)))
   \<and> (\<exists>v. snd (send io sz h port msg) = Inr v)"
  by (auto simp: send_def Let_def sint_small
           split: prod.splits sum.splits asio_exception.splits list.splits)

theorem send_returns_witness:
  "snd (send ex_asio 16 ''nowhere'' 31850 ''0123456789abcdef'') = Inr (- 1)
   \<and> snd (send ex_asio 16 ''down'' 31850 ''0123456789abcdef'') = Inr (- 1)
   \<and> snd (send ex_asio 16 ''server'' 31850 ''0123456789abcdef'') = Inr 16"
proof -
  have a: "fst (resolve ex_asio ''nowhere'' (to_string (unat (31850 :: 16 word)))) = []"
    by (simp add: ex_asio_def)
  have b: "fst (resolve ex_asio ''down'' (to_string (unat (31850 :: 16 word)))) = [9]
           \<and> send_to ex_asio ''0123456789abcdef'' 16 9 =
               Inl (System_error ''Network is unreachable'')"
    by (simp add: ex_asio_def)
  have c: "fst (resolve ex_asio ''server'' (to_string (unat (31850 :: 16 word)))) = [7]
           \<and> send_to ex_asio ''0123456789abcdef'' 16 7 = Inr 16"
    by (simp add: ex_asio_def)
  note t1 = send_returns [of ex_asio "''nowhere''" 31850 16 "''0123456789abcdef''",
      THEN conjunct1, rule_format, OF a]
  note t2 = send_returns [of ex_asio "''down''" 31850 16 "''0123456789abcdef''",
      THEN conjunct2, THEN conjunct1, rule_format, OF b]
  note t3 = send_returns [of ex_asio "''server''" 31850 16 "''0123456789abcdef''",
      THEN conjunct2, THEN conjunct2, THEN conjunct1, rule_format, OF c]
  show ?thesis
    using t1 t2 t3 by simp
qed

end
